theory Spec2Isabelle
  imports Complex_Main "HOL-Library.AList"
begin

section \<open>Python values and built-ins used by scorect.py\<close>

text \<open>
  The exceptions the modelled code can raise. A raise is the value \<open>Inl e\<close> of the result
  type \<open>py_error + 'a\<close>; a normal return is \<open>Inr v\<close>.
\<close>

datatype py_error = KeyError | ValueError | ZeroDivisionError | IndexError

type_synonym gene = string
type_synonym celltype = string
type_synonym cluster = int

text \<open>
  A Python \<open>dict\<close> is an association list in insertion order; its keys are pairwise
  distinct. \<open>d[k]\<close> on a missing key raises \<open>KeyError\<close>; \<open>d[k] = v\<close> is
  \<open>AList.update k v d\<close>, which overwrites in place or appends a new key at the end.
\<close>

definition dict_get :: "('k \<times> 'v) list \<Rightarrow> 'k \<Rightarrow> py_error + 'v" where
  "dict_get d k = (case map_of d k of None \<Rightarrow> Inl KeyError | Some v \<Rightarrow> Inr v)"

text \<open>\<open>d[c][t]\<close> as an option: \<open>None\<close> where either lookup would raise.\<close>

definition lookup2 :: "('c \<times> ('t \<times> 'v) list) list \<Rightarrow> 'c \<Rightarrow> 't \<Rightarrow> 'v option" where
  "lookup2 d c t = (case map_of d c of None \<Rightarrow> None | Some inner \<Rightarrow> map_of inner t)"

text \<open>
  \<open>min(iterable)\<close>: \<open>ValueError\<close> on an empty iterable. \<open>max(iterable, key=f)\<close> and
  \<open>min(iterable, key=f)\<close> keep the first element that is best: the running best is
  replaced only by a strictly better element.
\<close>

definition py_min :: "'a::linorder list \<Rightarrow> py_error + 'a" where
  "py_min xs = (case xs of [] \<Rightarrow> Inl ValueError | x # ys \<Rightarrow> Inr (fold min ys x))"

primrec max_from :: "('a \<Rightarrow> 'b::linorder) \<Rightarrow> 'a \<Rightarrow> 'a list \<Rightarrow> 'a" where
  "max_from key best [] = best"
| "max_from key best (x # xs) = max_from key (if key best < key x then x else best) xs"

primrec min_from :: "('a \<Rightarrow> 'b::linorder) \<Rightarrow> 'a \<Rightarrow> 'a list \<Rightarrow> 'a" where
  "min_from key best [] = best"
| "min_from key best (x # xs) = min_from key (if key x < key best then x else best) xs"

definition py_max_key :: "('a \<Rightarrow> 'b::linorder) \<Rightarrow> 'a list \<Rightarrow> py_error + 'a" where
  "py_max_key key xs = (case xs of [] \<Rightarrow> Inl ValueError | x # ys \<Rightarrow> Inr (max_from key x ys))"

definition py_min_key :: "('a \<Rightarrow> 'b::linorder) \<Rightarrow> 'a list \<Rightarrow> py_error + 'a" where
  "py_min_key key xs = (case xs of [] \<Rightarrow> Inl ValueError | x # ys \<Rightarrow> Inr (min_from key x ys))"

text \<open>
  \<open>xs[i]\<close> with Python's negative indices, and the slice \<open>xs[start:stop]\<close>, which
  clamps both ends to the sequence and never raises.
\<close>

definition py_index :: "'a list \<Rightarrow> int \<Rightarrow> py_error + 'a" where
  "py_index xs i =
     (if 0 \<le> i \<and> i < int (length xs) then Inr (xs ! nat i)
      else if i < 0 \<and> - int (length xs) \<le> i then Inr (xs ! nat (int (length xs) + i))
      else Inl IndexError)"

definition slice_bound :: "nat \<Rightarrow> int \<Rightarrow> nat" where
  "slice_bound n i = (if i < 0 then nat (max 0 (int n + i)) else min n (nat i))"

definition py_slice :: "'a list \<Rightarrow> int \<Rightarrow> int \<Rightarrow> 'a list" where
  "py_slice xs start stop =
     take (slice_bound (length xs) stop - slice_bound (length xs) start)
          (drop (slice_bound (length xs) start) xs)"

text \<open>
  \<open>int(a / b)\<close>: true division, then truncation toward zero; \<open>ZeroDivisionError\<close> when
  \<open>b\<close> is 0. The quotient is taken exactly: the float produced by \<open>a / b\<close> truncates to
  the same integer as long as \<open>a\<close> is below \<open>2 ^ 53\<close> in magnitude.
\<close>

definition int_truediv :: "int \<Rightarrow> int \<Rightarrow> py_error + int" where
  "int_truediv a b =
     (if b = 0 then Inl ZeroDivisionError else Inr (sgn a * sgn b * (\<bar>a\<bar> div \<bar>b\<bar>)))"

text \<open>\<open>str(n)\<close> for an integer: its decimal digits, with a leading minus sign.\<close>

fun digits10 :: "nat \<Rightarrow> string" where
  "digits10 n =
     (if n < 10 then [char_of (48 + n)] else digits10 (n div 10) @ [char_of (48 + n mod 10)])"

definition py_str :: "int \<Rightarrow> string" where
  "py_str i = (if i < 0 then CHR ''-'' # digits10 (nat (- i)) else digits10 (nat i))"

section \<open>The data: ranked gene table, reference, AnnData slots\<close>

text \<open>
  One row of the data frame built by \<open>wrangle_ranked_genes\<close>. \<open>row_label\<close> is the pandas
  index of the row, which is the rank position of the gene in its cluster. The two float
  columns are carried around and never computed on, so their type is a parameter.
\<close>

record 'f ranked_row =
  row_label :: nat
  z_score :: 'f
  adj_pvals :: 'f
  gene :: gene
  cluster_number :: cluster

text \<open>
  \<open>anndata.uns['rank_genes_groups']\<close>: three structured arrays with one field per group,
  seen column by column as pandas does, and the \<open>groupby\<close> parameter.
\<close>

record 'f rank_genes_groups =
  rgg_names :: "(string \<times> gene list) list"
  rgg_scores :: "(string \<times> 'f list) list"
  rgg_pvals_adj :: "(string \<times> 'f list) list"
  rgg_groupby :: string

text \<open>\<open>anndata.uns['scoreCT']\<close>; the key \<open>pval_thrsh\<close> is absent until a threshold is stored.\<close>

record scoreCT =
  sct_pval_dict :: "(cluster \<times> (celltype \<times> rat) list) list"
  sct_score_dict :: "(cluster \<times> (celltype \<times> int) list) list"
  sct_clustering :: string
  sct_pval_thrsh :: "rat option"

text \<open>
  The AnnData object as far as the code reads and writes it: the columns of \<open>obs\<close> (one
  string per cell in each column), and the two slots of \<open>uns\<close>.
\<close>

record 'f anndata =
  n_obs :: nat
  obs :: "(string \<times> string list) list"
  uns_rank_genes_groups :: "'f rank_genes_groups option"
  uns_scoreCT :: "scoreCT option"

section \<open>wrangle_ranked_genes\<close>

text \<open>\<open>len(recarray)\<close>: the number of rows, which is the length of each field.\<close>

definition recarray_len :: "(string \<times> 'a list) list \<Rightarrow> nat" where
  "recarray_len cols = (case cols of [] \<Rightarrow> 0 | c # _ \<Rightarrow> length (snd c))"

text \<open>
  The body of the loop over the groups: the three columns named \<open>str(i)\<close> are put side by
  side (they share the index 0, 1, ...) and labelled with the cluster number \<open>i\<close>.
\<close>

primrec wrangle_loop :: "'f rank_genes_groups \<Rightarrow> nat list \<Rightarrow> 'f ranked_row list
    \<Rightarrow> py_error + 'f ranked_row list" where
  "wrangle_loop rgg [] marker_df = Inr marker_df"
| "wrangle_loop rgg (i # rest) marker_df =
     (case dict_get (rgg_scores rgg) (py_str (int i)) of Inl e \<Rightarrow> Inl e
      | Inr zs \<Rightarrow>
     (case dict_get (rgg_pvals_adj rgg) (py_str (int i)) of Inl e \<Rightarrow> Inl e
      | Inr ps \<Rightarrow>
     (case dict_get (rgg_names rgg) (py_str (int i)) of Inl e \<Rightarrow> Inl e
      | Inr gs \<Rightarrow>
        wrangle_loop rgg rest
          (marker_df @
           map (\<lambda>(r, z, p, g). \<lparr>row_label = r, z_score = z, adj_pvals = p, gene = g,
                  cluster_number = int i\<rparr>)
               (zip [0..<length zs] (zip zs (zip ps gs)))))))"

definition wrangle_ranked_genes :: "'f rank_genes_groups \<Rightarrow> py_error + 'f ranked_row list" where
  "wrangle_ranked_genes rgg = wrangle_loop rgg [0..<length (rgg_scores rgg)] []"

section \<open>_score_iter: the binned scoring engine\<close>

text \<open>
  The innermost loop, over the cell types of the reference, for bin \<open>k\<close> with the genes
  \<open>bin_genes\<close>: \<open>score_list[-(1 + k)]\<close> times the size of the intersection is added to the
  cell type's entry, which is created on first use.
\<close>

primrec score_cell_types :: "int list \<Rightarrow> int \<Rightarrow> gene list \<Rightarrow> (celltype \<times> gene list) list
    \<Rightarrow> (celltype \<times> int) list \<Rightarrow> py_error + (celltype \<times> int) list" where
  "score_cell_types score_list k bin_genes [] d = Inr d"
| "score_cell_types score_list k bin_genes (col # cols) d =
     (case py_index score_list (- (1 + k)) of Inl e \<Rightarrow> Inl e
      | Inr w \<Rightarrow>
        (let score_i = w * int (card (set (snd col) \<inter> set bin_genes))
         in score_cell_types score_list k bin_genes cols
              (case map_of d (fst col) of
                 Some s \<Rightarrow> AList.update (fst col) (s + score_i) d
               | None \<Rightarrow> AList.update (fst col) score_i d)))"

text \<open>The loop over the bins \<open>k\<close> of one cluster's rows \<open>sub_df\<close>.\<close>

primrec score_bins :: "int list \<Rightarrow> int \<Rightarrow> 'f ranked_row list \<Rightarrow> (celltype \<times> gene list) list
    \<Rightarrow> int list \<Rightarrow> (celltype \<times> int) list \<Rightarrow> py_error + (celltype \<times> int) list" where
  "score_bins score_list bin_size sub_df ref_df [] d = Inr d"
| "score_bins score_list bin_size sub_df ref_df (k # ks) d =
     (let bin_df = py_slice sub_df (k * bin_size) (bin_size + k * bin_size)
      in case score_cell_types score_list k (map gene bin_df) ref_df d of
           Inl e \<Rightarrow> Inl e
         | Inr d' \<Rightarrow> score_bins score_list bin_size sub_df ref_df ks d')"

text \<open>The loop over the clusters; \<open>n\<close> is \<open>int(nb_marker / bin_size)\<close>.\<close>

primrec score_each_cluster :: "int list \<Rightarrow> int \<Rightarrow> int \<Rightarrow> 'f ranked_row list
    \<Rightarrow> (celltype \<times> gene list) list \<Rightarrow> cluster list
    \<Rightarrow> (cluster \<times> (celltype \<times> int) list) list
    \<Rightarrow> py_error + (cluster \<times> (celltype \<times> int) list) list" where
  "score_each_cluster score_list n bin_size ranked_marker ref_df [] dict_scores = Inr dict_scores"
| "score_each_cluster score_list n bin_size ranked_marker ref_df (clust # rest) dict_scores =
     (let sub_df = filter (\<lambda>r. cluster_number r = clust) ranked_marker
      in case score_bins score_list bin_size sub_df ref_df [0..n - 1] [] of
           Inl e \<Rightarrow> Inl e
         | Inr d \<Rightarrow>
             score_each_cluster score_list n bin_size ranked_marker ref_df rest
               (AList.update clust d dict_scores))"

text \<open>
  \<open>_score_iter\<close>. \<open>score_list\<close> is \<open>range(1, n + 1)\<close>. The clusters are the distinct values
  of the \<open>cluster_number\<close> column; Python leaves the iteration order of that set open, here
  it is the order of first occurrence, and no result below depends on it.
\<close>

definition score_iter :: "'f ranked_row list \<Rightarrow> int \<Rightarrow> (celltype \<times> gene list) list \<Rightarrow> int
    \<Rightarrow> py_error + (cluster \<times> (celltype \<times> int) list) list" where
  "score_iter ranked_marker nb_marker ref_df bin_size =
     (case int_truediv nb_marker bin_size of Inl e \<Rightarrow> Inl e
      | Inr n \<Rightarrow>
          score_each_cluster [1..n] n bin_size ranked_marker ref_df
            (remdups (map cluster_number ranked_marker)) [])"

section \<open>randomize_genes\<close>

text \<open>
  \<open>np.random.choice(a, n)\<close>: \<open>n\<close> draws with replacement. The generator's state is
  not part of the program, so the draws are an input: \<open>draw j\<close> is the random number
  behind the \<open>j\<close>-th pick. Drawing from an empty pool raises \<open>ValueError\<close>.
\<close>

definition np_random_choice :: "'a list \<Rightarrow> nat \<Rightarrow> (nat \<Rightarrow> nat) \<Rightarrow> py_error + 'a list" where
  "np_random_choice a n draw =
     (if a = [] \<and> n \<noteq> 0 then Inl ValueError
      else Inr (map (\<lambda>j. a ! (draw j mod length a)) [0..<n]))"

text \<open>\<open>df['gene'] = values\<close>: the column is replaced row by row; the lengths must agree.\<close>

definition set_gene_column :: "'f ranked_row list \<Rightarrow> gene list \<Rightarrow> py_error + 'f ranked_row list" where
  "set_gene_column df col =
     (if length col \<noteq> length df then Inl ValueError
      else Inr (map (\<lambda>(r, g). r\<lparr>gene := g\<rparr>) (zip df col)))"

text \<open>
  Data frames are objects: a variable holds a reference, and an assignment to a column
  changes the object for every holder of the reference. The store lists the objects, a
  reference is a position in it. \<open>df.copy()\<close> allocates a new object.
\<close>

definition df_copy :: "'f ranked_row list list \<Rightarrow> nat \<Rightarrow> nat \<times> 'f ranked_row list list" where
  "df_copy store df = (length store, store @ [store ! df])"

definition randomize_genes :: "'f ranked_row list list \<Rightarrow> nat \<Rightarrow> gene list \<Rightarrow> (nat \<Rightarrow> nat)
    \<Rightarrow> py_error + nat \<times> 'f ranked_row list list" where
  "randomize_genes store marker_df gene_list draw =
     (case df_copy store marker_df of
        (copy_df, store1) \<Rightarrow>
          (case np_random_choice gene_list (length (map gene (store1 ! copy_df))) draw of
             Inl e \<Rightarrow> Inl e
           | Inr rd_pick \<Rightarrow>
               (case set_gene_column (store1 ! copy_df) rd_pick of
                  Inl e \<Rightarrow> Inl e
                | Inr df \<Rightarrow> Inr (copy_df, store1[copy_df := df]))))"

section \<open>score_clusters: the permutation test\<close>

text \<open>
  \<open>i_dict\<close> of one iteration: the scores of the randomized copy of \<open>ranked_marker\<close>. The
  store of the call holds \<open>ranked_marker\<close> alone, at reference 0.
\<close>

definition i_dict_of :: "'f ranked_row list \<Rightarrow> int \<Rightarrow> (celltype \<times> gene list) list \<Rightarrow> int
    \<Rightarrow> gene list \<Rightarrow> (nat \<Rightarrow> nat) \<Rightarrow> py_error + (cluster \<times> (celltype \<times> int) list) list" where
  "i_dict_of ranked_marker nb_marker ref_marker bin_size gene_list draw =
     (case randomize_genes [ranked_marker] 0 gene_list draw of
        Inl e \<Rightarrow> Inl e
      | Inr (copy_df, store) \<Rightarrow> score_iter (store ! copy_df) nb_marker ref_marker bin_size)"

text \<open>
  The comparison of one iteration, for the cell types of one cluster: \<open>co\<close> runs over the
  items of \<open>ref_score[clust]\<close>, and \<open>count_dict[clust][ct]\<close> goes up by one where the
  random score is at least the observed one.
\<close>

primrec compare_cell_types :: "(cluster \<times> (celltype \<times> int) list) list \<Rightarrow> cluster
    \<Rightarrow> (celltype \<times> int) list \<Rightarrow> (cluster \<times> (celltype \<times> int) list) list
    \<Rightarrow> py_error + (cluster \<times> (celltype \<times> int) list) list" where
  "compare_cell_types i_dict clust [] count_dict = Inr count_dict"
| "compare_cell_types i_dict clust (co # rest) count_dict =
     (case dict_get i_dict clust of Inl e \<Rightarrow> Inl e
      | Inr i_clust \<Rightarrow>
     (case dict_get i_clust (fst co) of Inl e \<Rightarrow> Inl e
      | Inr v \<Rightarrow>
          if snd co \<le> v then
            (case dict_get count_dict clust of Inl e \<Rightarrow> Inl e
             | Inr counts \<Rightarrow>
            (case dict_get counts (fst co) of Inl e \<Rightarrow> Inl e
             | Inr c \<Rightarrow>
                 compare_cell_types i_dict clust rest
                   (AList.update clust (AList.update (fst co) (c + 1) counts) count_dict)))
          else compare_cell_types i_dict clust rest count_dict))"

primrec compare_clusters :: "(cluster \<times> (celltype \<times> int) list) list
    \<Rightarrow> (cluster \<times> (celltype \<times> int) list) list \<Rightarrow> (cluster \<times> (celltype \<times> int) list) list
    \<Rightarrow> py_error + (cluster \<times> (celltype \<times> int) list) list" where
  "compare_clusters i_dict [] count_dict = Inr count_dict"
| "compare_clusters i_dict (cs # rest) count_dict =
     (case compare_cell_types i_dict (fst cs) (snd cs) count_dict of
        Inl e \<Rightarrow> Inl e
      | Inr cd \<Rightarrow> compare_clusters i_dict rest cd)"

text \<open>The loop \<open>for i in range(random_sampling)\<close>; \<open>draws i\<close> are the draws of iteration \<open>i\<close>.\<close>

primrec permutation_loop :: "'f ranked_row list \<Rightarrow> int \<Rightarrow> (celltype \<times> gene list) list \<Rightarrow> int
    \<Rightarrow> gene list \<Rightarrow> (nat \<Rightarrow> nat \<Rightarrow> nat) \<Rightarrow> (cluster \<times> (celltype \<times> int) list) list
    \<Rightarrow> nat list \<Rightarrow> (cluster \<times> (celltype \<times> int) list) list
    \<Rightarrow> py_error + (cluster \<times> (celltype \<times> int) list) list" where
  "permutation_loop ranked_marker nb_marker ref_marker bin_size gene_list draws ref_score
     [] count_dict = Inr count_dict"
| "permutation_loop ranked_marker nb_marker ref_marker bin_size gene_list draws ref_score
     (i # rest) count_dict =
     (case i_dict_of ranked_marker nb_marker ref_marker bin_size gene_list (draws i) of
        Inl e \<Rightarrow> Inl e
      | Inr i_dict \<Rightarrow>
          (case compare_clusters i_dict ref_score count_dict of
             Inl e \<Rightarrow> Inl e
           | Inr cd \<Rightarrow>
               permutation_loop ranked_marker nb_marker ref_marker bin_size gene_list draws
                 ref_score rest cd))"

text \<open>
  \<open>float(count) / random_sampling\<close> for every entry. The quotient is a rational number
  here; the float of the source is that number rounded.
\<close>

definition divide_counts :: "(cluster \<times> (celltype \<times> int) list) list \<Rightarrow> int
    \<Rightarrow> py_error + (cluster \<times> (celltype \<times> rat) list) list" where
  "divide_counts count_dict random_sampling =
     (if random_sampling = 0 \<and> list_ex (\<lambda>cd. snd cd \<noteq> []) count_dict then Inl ZeroDivisionError
      else Inr (map (\<lambda>cd. (fst cd,
                   map (\<lambda>tc. (fst tc, of_int (snd tc) / of_int random_sampling)) (snd cd)))
                 count_dict))"

text \<open>Lines 359 to 376 of \<open>score_clusters\<close>: the counters, the loop, the division.\<close>

definition permutation_test :: "'f ranked_row list \<Rightarrow> int \<Rightarrow> (celltype \<times> gene list) list \<Rightarrow> int
    \<Rightarrow> gene list \<Rightarrow> (nat \<Rightarrow> nat \<Rightarrow> nat) \<Rightarrow> int \<Rightarrow> (cluster \<times> (celltype \<times> int) list) list
    \<Rightarrow> py_error + (cluster \<times> (celltype \<times> rat) list) list" where
  "permutation_test ranked_marker nb_marker ref_marker bin_size gene_list draws random_sampling
     ref_score =
     (let count_dict = map (\<lambda>cs. (fst cs, map (\<lambda>ts. (fst ts, 0)) (snd cs))) ref_score
      in case permutation_loop ranked_marker nb_marker ref_marker bin_size gene_list draws
                ref_score [0..<nat random_sampling] count_dict of
           Inl e \<Rightarrow> Inl e
         | Inr cd \<Rightarrow> divide_counts cd random_sampling)"

definition missing_prerequisite_message :: string where
  "missing_prerequisite_message =
     ''Error: No clustering solution OR gene ranking found. Please perform scanpy.tl.louvain or'' @
     ''scanpy.tl.leiden for clustering, and sc.tl.rank_genes_groups for differential gene expression.''"

text \<open>
  \<open>score_clusters\<close>. What the source fetches from outside is an input here: \<open>ref_marker\<close>
  is the reference (\<open>user_ref\<close>, or what \<open>_parse_ref\<close> read), \<open>gene_list\<close> what
  \<open>_get_genelist\<close> downloaded, \<open>draws\<close> the random numbers. The function returns its
  message and the AnnData object as it leaves it.
\<close>

definition score_clusters :: "'f anndata \<Rightarrow> (celltype \<times> gene list) list \<Rightarrow> gene list
    \<Rightarrow> (nat \<Rightarrow> nat \<Rightarrow> nat) \<Rightarrow> int \<Rightarrow> int \<Rightarrow> py_error + string \<times> 'f anndata" where
  "score_clusters anndata ref_marker gene_list draws bin_size random_sampling =
     (if \<not> (\<not> (''louvain'' \<notin> fst ` set (obs anndata)) \<or> \<not> (''leiden'' \<notin> fst ` set (obs anndata)))
         \<or> uns_rank_genes_groups anndata = None
      then Inr (missing_prerequisite_message, anndata)
      else
        (case uns_rank_genes_groups anndata of
           None \<Rightarrow> Inl KeyError
         | Some rgg \<Rightarrow>
             (let nb_marker = int (recarray_len (rgg_names rgg))
              in case wrangle_ranked_genes rgg of
                   Inl e \<Rightarrow> Inl e
                 | Inr ranked_marker \<Rightarrow>
                     (case score_iter ranked_marker nb_marker ref_marker bin_size of
                        Inl e \<Rightarrow> Inl e
                      | Inr ref_score \<Rightarrow>
                          (case permutation_test ranked_marker nb_marker ref_marker bin_size
                                  gene_list draws random_sampling ref_score of
                             Inl e \<Rightarrow> Inl e
                           | Inr stat_dict \<Rightarrow>
                               Inr (''DONE'',
                                    anndata\<lparr>uns_scoreCT :=
                                      Some \<lparr>sct_pval_dict = stat_dict, sct_score_dict = ref_score,
                                            sct_clustering = rgg_groupby rgg,
                                            sct_pval_thrsh = None\<rparr>\<rparr>))))))"

section \<open>assign_celltypes\<close>

text \<open>
  The choice for one cluster (lines 539 to 547); \<open>pvals\<close> is \<open>pval_dict[cluster]\<close>.
  \<open>max(d, key=d.get)\<close> runs over the keys of \<open>d\<close> and compares their values, which is
  \<open>py_max_key snd\<close> on the items.
\<close>

definition assign_type :: "rat \<Rightarrow> (celltype \<times> rat) list \<Rightarrow> (cluster \<times> (celltype \<times> int) list) list
    \<Rightarrow> cluster \<Rightarrow> py_error + celltype" where
  "assign_type pval_thrsh pvals score_dict cluster =
     (case py_min (map snd pvals) of
        Inl e \<Rightarrow> Inl e
      | Inr min_value \<Rightarrow>
          if min_value > pval_thrsh then Inr ''NA''
          else if length (remdups (map fst (filter (\<lambda>kv. snd kv = min_value) pvals))) > 1 then
            (case dict_get score_dict cluster of
               Inl e \<Rightarrow> Inl e
             | Inr d \<Rightarrow> (case py_max_key snd d of Inl e \<Rightarrow> Inl e | Inr kv \<Rightarrow> Inr (fst kv)))
          else (case py_min_key snd pvals of Inl e \<Rightarrow> Inl e | Inr kv \<Rightarrow> Inr (fst kv)))"

text \<open>
  The loop over the clusters: the label goes to the \<open>scorect\<close> column of every cell whose
  clustering label is \<open>str(cluster)\<close>, and the threshold is stored.
\<close>

primrec assign_loop :: "rat \<Rightarrow> string \<Rightarrow> (cluster \<times> (celltype \<times> rat) list) list \<Rightarrow> 'f anndata
    \<Rightarrow> py_error + 'f anndata" where
  "assign_loop pval_thrsh clust_method [] anndata = Inr anndata"
| "assign_loop pval_thrsh clust_method (cp # rest) anndata =
     (case uns_scoreCT anndata of
        None \<Rightarrow> Inl KeyError
      | Some sct \<Rightarrow>
     (case assign_type pval_thrsh (snd cp) (sct_score_dict sct) (fst cp) of
        Inl e \<Rightarrow> Inl e
      | Inr a \<Rightarrow>
     (case dict_get (obs anndata) clust_method of
        Inl e \<Rightarrow> Inl e
      | Inr labels \<Rightarrow>
     (case dict_get (obs anndata) ''scorect'' of
        Inl e \<Rightarrow> Inl e
      | Inr col \<Rightarrow>
          assign_loop pval_thrsh clust_method rest
            (anndata\<lparr>obs := AList.update ''scorect''
                        (map (\<lambda>(l, old). if l = py_str (fst cp) then a else old) (zip labels col))
                        (obs anndata),
                     uns_scoreCT := Some (sct\<lparr>sct_pval_thrsh := Some pval_thrsh\<rparr>)\<rparr>)))))"

definition assign_celltypes :: "'f anndata \<Rightarrow> rat \<Rightarrow> py_error + 'f anndata" where
  "assign_celltypes anndata pval_thrsh =
     (case uns_scoreCT anndata of
        None \<Rightarrow> Inl KeyError
      | Some sct \<Rightarrow>
          assign_loop pval_thrsh (sct_clustering sct) (sct_pval_dict sct)
            (anndata\<lparr>obs := AList.update ''scorect'' (replicate (n_obs anndata) [])
                              (obs anndata)\<rparr>))"

section \<open>The score as the specification words it\<close>

text \<open>
  The specification's description of the score of one cell type for one cluster, to be
  compared with what \<open>score_iter\<close> computes. \<open>genes\<close> are the genes of the cluster in
  rank order, so the position of a gene in the list is its rank position. There are
  \<open>floor(nb_marker / bin_size)\<close> bins; bin \<open>k\<close> holds the rank positions from
  \<open>k * bin_size\<close> up to \<open>(k + 1) * bin_size - 1\<close> and has the weight \<open>num_bins - k\<close>; the
  score is the sum over the bins of the weight times the number of marker genes in the bin.
\<close>

definition spec_bin_genes :: "nat \<Rightarrow> gene list \<Rightarrow> nat \<Rightarrow> gene set" where
  "spec_bin_genes bin_size genes k = set (take bin_size (drop (k * bin_size) genes))"

definition spec_score :: "int \<Rightarrow> int \<Rightarrow> gene list \<Rightarrow> gene list \<Rightarrow> int" where
  "spec_score nb_marker bin_size markers genes =
     (let num_bins = nat (nb_marker div bin_size)
      in (\<Sum>k\<leftarrow>[0..<num_bins].
            int (num_bins - k) * int (card (spec_bin_genes (nat bin_size) genes k \<inter> set markers))))"

text \<open>Two abbreviations for the proofs: the value of an entry that may be missing, and
  the genes of the slice that the code takes for bin \<open>k\<close>.\<close>

definition score_so_far :: "(celltype \<times> int) list \<Rightarrow> celltype \<Rightarrow> int" where
  "score_so_far d ct = (case map_of d ct of None \<Rightarrow> 0 | Some s \<Rightarrow> s)"

definition bin_genes :: "int \<Rightarrow> 'f ranked_row list \<Rightarrow> int \<Rightarrow> gene list" where
  "bin_genes bs sub k = map gene (take (nat bs) (drop (nat (k * bs)) sub))"

text \<open>
  A table for the examples: one cluster, number 0, with \<open>n\<close> ranked genes named
  \<open>g0\<close>, \<open>g1\<close>, ... in rank order.
\<close>

definition example_table :: "nat \<Rightarrow> unit ranked_row list" where
  "example_table n = map (\<lambda>i. \<lparr>row_label = i, z_score = (), adj_pvals = (),
       gene = CHR ''g'' # digits10 i, cluster_number = 0\<rparr>) [0..<n]"

text \<open>A table with one cluster, number 0, and the given genes in rank order.\<close>

definition table_of_genes :: "gene list \<Rightarrow> unit ranked_row list" where
  "table_of_genes gs = map (\<lambda>i. \<lparr>row_label = i, z_score = (), adj_pvals = (),
       gene = gs ! i, cluster_number = 0\<rparr>) [0..<length gs]"

text \<open>Draws for the examples: iteration \<open>i\<close> picks the pool entry \<open>i + j\<close> for row \<open>j\<close>.\<close>

definition example_draws :: "nat \<Rightarrow> nat \<Rightarrow> nat" where
  "example_draws i j = i + j"

section \<open>Reading the permutation test\<close>

text \<open>
  \<open>i_dict[clust][ct]\<close> of the iteration whose draws are \<open>draw\<close>, as an option; and the
  test of line 371, \<open>i_dict[clust][ct] >= ref_score[clust][ct]\<close>, on such a value.
\<close>

definition permuted_score :: "'f ranked_row list \<Rightarrow> int \<Rightarrow> (celltype \<times> gene list) list \<Rightarrow> int
    \<Rightarrow> gene list \<Rightarrow> (nat \<Rightarrow> nat) \<Rightarrow> cluster \<Rightarrow> celltype \<Rightarrow> int option" where
  "permuted_score ranked_marker nb_marker ref_marker bin_size gene_list draw clust ct =
     (case i_dict_of ranked_marker nb_marker ref_marker bin_size gene_list draw of
        Inl e \<Rightarrow> None
      | Inr i_dict \<Rightarrow> lookup2 i_dict clust ct)"

definition meets :: "int \<Rightarrow> int option \<Rightarrow> bool" where
  "meets observed v = (case v of None \<Rightarrow> False | Some w \<Rightarrow> observed \<le> w)"

text \<open>The counter after one comparison.\<close>

definition bump :: "int \<Rightarrow> int option \<Rightarrow> int \<Rightarrow> int" where
  "bump observed v n = (if meets observed v then n + 1 else n)"

section \<open>The assignment of a cluster\<close>

lemma max_from_mem: "max_from key best xs \<in> set (best # xs)"
  by (induction xs arbitrary: best) auto

lemma min_from_mem: "min_from key best xs \<in> set (best # xs)"
  by (induction xs arbitrary: best) auto

lemma py_max_key_mem: "xs \<noteq> [] \<Longrightarrow> \<exists>x. py_max_key key xs = Inr x \<and> x \<in> set xs"
  using max_from_mem [of key] by (cases xs) (auto simp: py_max_key_def)

lemma py_min_key_mem: "xs \<noteq> [] \<Longrightarrow> \<exists>x. py_min_key key xs = Inr x \<and> x \<in> set xs"
  using min_from_mem [of key] by (cases xs) (auto simp: py_min_key_def)

text \<open>
  The example of the specification: two cell types tied at p-value 0.02, with scores 10
  and 15. The cluster gets the one with score 15.
\<close>

lemma assign_type_tie_example:
  "assign_type (1/10) [(''A'', 1/50), (''B'', 1/50)] [(0, [(''A'', 10), (''B'', 15)])] 0 = Inr ''B''"
  by (simp add: assign_type_def py_min_def py_max_key_def dict_get_def)

text \<open>
  Claim C1: on a tie at the minimum p-value, the cluster gets the cell type with the
  highest score among the tied ones. The tie branch takes the maximum over all the cell
  types of the cluster instead: with A and B tied at 0.02 (scores 10 and 15) and C at
  0.5 (score 20), the minimum p-value is 0.02 and the cluster is labelled C, which is not
  among the tied cell types.
\<close>

theorem assign_type_tie_picks_untied:
  "assign_type (1/10) [(''A'', 1/50), (''B'', 1/50), (''C'', 1/2)]
      [(0, [(''A'', 10), (''B'', 15), (''C'', 20)])] 0 = Inr ''C''
   \<and> py_min (map snd [(''A'', 1/50), (''B'', 1/50), (''C'', 1/2 :: rat)]) = Inr (1/50)"
  by (simp add: assign_type_def py_min_def py_max_key_def dict_get_def)

text \<open>
  Claim C2, as amended: a cluster whose minimum p-value equals the threshold is not sent
  to the NA branch, since the test is a strict \<open>>\<close>; it is labelled with one of its cell
  types (a key of its p-value or score dictionary).
\<close>

theorem assign_type_at_threshold:
  assumes "py_min (map snd pvals) = Inr pval_thrsh"
    and "map_of score_dict cluster = Some d" and "d \<noteq> []"
  shows "\<exists>ct. assign_type pval_thrsh pvals score_dict cluster = Inr ct
           \<and> ct \<in> fst ` set pvals \<union> fst ` set d"
proof -
  from assms(1) have ne: "pvals \<noteq> []" by (auto simp: py_min_def)
  show ?thesis
  proof (cases "1 < length (remdups (map fst (filter (\<lambda>kv. snd kv = pval_thrsh) pvals)))")
    case True
    from py_max_key_mem [OF assms(3), of snd] obtain kv
      where "py_max_key snd d = Inr kv" "kv \<in> set d" by blast
    with True assms show ?thesis
      by (auto simp: assign_type_def dict_get_def)
  next
    case False
    from py_min_key_mem [OF ne, of snd] obtain kv
      where "py_min_key snd pvals = Inr kv" "kv \<in> set pvals" by blast
    with False assms show ?thesis
      by (auto simp: assign_type_def)
  qed
qed

theorem assign_type_at_threshold_witness:
  "\<exists>ct. assign_type (1/10) [(''A'', 1/10), (''B'', 1/2)] [(0, [(''A'', 3), (''B'', 7)])] 0 = Inr ct
     \<and> ct \<in> {''A'', ''B''}"
  using assign_type_at_threshold [of "[(''A'', 1/10), (''B'', 1/2)]" "1/10"
      "[(0, [(''A'', 3), (''B'', 7)])]" 0 "[(''A'', 3), (''B'', 7)]"]
  by (simp add: py_min_def)

text \<open>
  The claim as stated fails: the minimum p-value of the cluster is the threshold 0.1, and
  the cluster is labelled A, not NA.
\<close>

theorem assign_type_at_threshold_counterexample:
  "py_min (map snd [(''A'', 1/10), (''B'', 1/2 :: rat)]) = Inr (1/10)
   \<and> assign_type (1/10) [(''A'', 1/10), (''B'', 1/2)] [(0, [(''A'', 3), (''B'', 7)])] 0 = Inr ''A''
   \<and> ''A'' \<noteq> ''NA''"
  by (simp add: assign_type_def py_min_def py_min_key_def)

section \<open>The scores of score_iter\<close>


lemma int_truediv_pos: "0 < b \<Longrightarrow> 0 \<le> a \<Longrightarrow> int_truediv a b = Inr (a div b)"
  by (cases "a = 0") (auto simp: int_truediv_def)

lemma py_slice_bin:
  "0 < bs \<Longrightarrow> 0 \<le> k \<Longrightarrow> py_slice xs (k * bs) (bs + k * bs) = take (nat bs) (drop (nat (k * bs)) xs)"
proof -
  assume a: "0 < bs" "0 \<le> k"
  then have n0: "0 \<le> k * bs" by simp
  with a have nn: "\<not> k * bs < 0" "\<not> bs + k * bs < 0" by linarith+
  have eq: "nat (bs + k * bs) = nat bs + nat (k * bs)"
    using a nn by (simp add: nat_add_distrib)
  show ?thesis
  proof (cases "length xs \<le> nat (k * bs)")
    case True
    then show ?thesis using nn by (simp add: py_slice_def slice_bound_def)
  next
    case False
    then show ?thesis using nn eq by (simp add: py_slice_def slice_bound_def min_def)
  qed
qed

lemma py_index_score_list: "0 \<le> k \<Longrightarrow> k < n \<Longrightarrow> py_index [1..n] (- 1 - k) = Inr (n - k)"
  by (simp add: py_index_def)

lemma score_cell_types_lookup:
  assumes "0 \<le> k" "k < n" "distinct (map fst ref_df)"
  shows "\<exists>d'. score_cell_types [1..n] k genes ref_df d = Inr d' \<and>
     (\<forall>ct. map_of d' ct = (case map_of ref_df ct of None \<Rightarrow> map_of d ct
          | Some markers \<Rightarrow> Some (score_so_far d ct + (n - k) * int (card (set markers \<inter> set genes)))))"
  using assms(3)
proof (induction ref_df arbitrary: d)
  case Nil
  then show ?case by simp
next
  case (Cons col cols)
  let ?d1 = "(case map_of d (fst col) of
                 Some s \<Rightarrow> AList.update (fst col) (s + (n - k) * int (card (set (snd col) \<inter> set genes))) d
               | None \<Rightarrow> AList.update (fst col) ((n - k) * int (card (set (snd col) \<inter> set genes))) d)"
  from Cons.prems have dist: "distinct (map fst cols)" and notin: "fst col \<notin> fst ` set cols"
    by auto
  from Cons.IH [OF dist, of ?d1] obtain d' where
    run: "score_cell_types [1..n] k genes cols ?d1 = Inr d'" and
    look: "\<And>ct. map_of d' ct = (case map_of cols ct of None \<Rightarrow> map_of ?d1 ct
          | Some markers \<Rightarrow> Some (score_so_far ?d1 ct + (n - k) * int (card (set markers \<inter> set genes))))"
    by blast
  have d1: "map_of ?d1 = (map_of d)(fst col \<mapsto> score_so_far d (fst col) + (n - k) * int (card (set (snd col) \<inter> set genes)))"
    by (simp add: score_so_far_def update_conv' split: option.splits)
  have none: "map_of cols (fst col) = None"
    using notin by (simp add: map_of_eq_None_iff)
  have "score_cell_types [1..n] k genes (col # cols) d = Inr d'"
    using run assms(1,2) by (simp add: py_index_score_list Let_def)
  moreover have "map_of d' ct = (case map_of (col # cols) ct of None \<Rightarrow> map_of d ct
          | Some markers \<Rightarrow> Some (score_so_far d ct + (n - k) * int (card (set markers \<inter> set genes))))" for ct
  proof (cases "ct = fst col")
    case True
    then show ?thesis using look [of ct] none d1 by (cases col) simp
  next
    case False
    then show ?thesis using look [of ct] d1 by (cases col) (auto simp: score_so_far_def split: option.splits)
  qed
  ultimately show ?case by blast
qed



lemma score_bins_lookup:
  assumes "0 < bs" "distinct (map fst ref_df)" "\<forall>k\<in>set ks. 0 \<le> k \<and> k < n"
  shows "\<exists>d'. score_bins [1..n] bs sub ref_df ks d = Inr d' \<and>
     (\<forall>ct. map_of d' ct = (case map_of ref_df ct of None \<Rightarrow> map_of d ct
          | Some markers \<Rightarrow> if ks = [] then map_of d ct else
              Some (score_so_far d ct + (\<Sum>k\<leftarrow>ks. (n - k) * int (card (set markers \<inter> set (bin_genes bs sub k)))))))"
  using assms(3)
proof (induction ks arbitrary: d)
  case Nil
  then show ?case by (simp split: option.splits)
next
  case (Cons k ks)
  then have k: "0 \<le> k" "k < n" and rest: "\<forall>k\<in>set ks. 0 \<le> k \<and> k < n" by auto
  from score_cell_types_lookup [OF k assms(2), of "bin_genes bs sub k" d] obtain d1 where
    run1: "score_cell_types [1..n] k (bin_genes bs sub k) ref_df d = Inr d1" and
    look1: "\<And>ct. map_of d1 ct = (case map_of ref_df ct of None \<Rightarrow> map_of d ct
          | Some markers \<Rightarrow> Some (score_so_far d ct + (n - k) * int (card (set markers \<inter> set (bin_genes bs sub k)))))"
    by blast
  from Cons.IH [OF rest, of d1] obtain d' where
    run: "score_bins [1..n] bs sub ref_df ks d1 = Inr d'" and
    look: "\<And>ct. map_of d' ct = (case map_of ref_df ct of None \<Rightarrow> map_of d1 ct
          | Some markers \<Rightarrow> if ks = [] then map_of d1 ct else
              Some (score_so_far d1 ct + (\<Sum>k\<leftarrow>ks. (n - k) * int (card (set markers \<inter> set (bin_genes bs sub k))))))"
    by blast
  have "score_bins [1..n] bs sub ref_df (k # ks) d = Inr d'"
    using run run1 k assms(1) by (simp add: py_slice_bin bin_genes_def)
  moreover have "map_of d' ct = (case map_of ref_df ct of None \<Rightarrow> map_of d ct
          | Some markers \<Rightarrow> if k # ks = [] then map_of d ct else
              Some (score_so_far d ct + (\<Sum>k\<leftarrow>k # ks. (n - k) * int (card (set markers \<inter> set (bin_genes bs sub k))))))" for ct
    using look [of ct] look1 [of ct] by (simp add: score_so_far_def split: option.splits)
  ultimately show ?case by blast
qed

lemma score_each_cluster_lookup:
  assumes "0 < bs" "distinct (map fst ref_df)"
  shows "\<exists>D'. score_each_cluster [1..n] n bs t ref_df cs D = Inr D' \<and>
     (\<forall>c ct. lookup2 D' c ct =
        (if c \<in> set cs then
           (case map_of ref_df ct of None \<Rightarrow> None
            | Some markers \<Rightarrow> if n \<le> 0 then None else
                Some (\<Sum>k\<leftarrow>[0..n - 1]. (n - k) * int (card (set markers \<inter>
                        set (bin_genes bs (filter (\<lambda>r. cluster_number r = c) t) k)))))
         else lookup2 D c ct))"
proof (induction cs arbitrary: D)
  case Nil
  then show ?case by simp
next
  case (Cons clust rest)
  let ?sub = "filter (\<lambda>r. cluster_number r = clust) t"
  have ks: "\<forall>k\<in>set [0..n - 1]. 0 \<le> k \<and> k < n" by auto
  from score_bins_lookup [OF assms ks, of ?sub "[]"] obtain d where
    run1: "score_bins [1..n] bs ?sub ref_df [0..n - 1] [] = Inr d" and
    look0: "\<And>ct. map_of d ct = (case map_of ref_df ct of None \<Rightarrow> map_of [] ct
          | Some markers \<Rightarrow> if [0..n - 1] = [] then map_of [] ct else
              Some (score_so_far [] ct + (\<Sum>k\<leftarrow>[0..n - 1]. (n - k) * int (card (set markers \<inter> set (bin_genes bs ?sub k))))))"
    by blast
  have look1: "map_of d ct = (case map_of ref_df ct of None \<Rightarrow> None
          | Some markers \<Rightarrow> if [0..n - 1] = [] then None else
              Some (\<Sum>k\<leftarrow>[0..n - 1]. (n - k) * int (card (set markers \<inter> set (bin_genes bs ?sub k)))))" for ct
    using look0 [of ct] by (simp add: score_so_far_def split: option.splits)
  from Cons.IH [of "AList.update clust d D"] obtain D' where
    run: "score_each_cluster [1..n] n bs t ref_df rest (AList.update clust d D) = Inr D'" and
    look: "\<And>c ct. lookup2 D' c ct =
        (if c \<in> set rest then
           (case map_of ref_df ct of None \<Rightarrow> None
            | Some markers \<Rightarrow> if n \<le> 0 then None else
                Some (\<Sum>k\<leftarrow>[0..n - 1]. (n - k) * int (card (set markers \<inter>
                        set (bin_genes bs (filter (\<lambda>r. cluster_number r = c) t) k)))))
         else lookup2 (AList.update clust d D) c ct)"
    by blast
  have e: "([0..n - 1] = []) = (n \<le> 0)" by auto
  have "score_each_cluster [1..n] n bs t ref_df (clust # rest) D = Inr D'"
    using run run1 by simp
  moreover have "lookup2 D' c ct =
        (if c \<in> set (clust # rest) then
           (case map_of ref_df ct of None \<Rightarrow> None
            | Some markers \<Rightarrow> if n \<le> 0 then None else
                Some (\<Sum>k\<leftarrow>[0..n - 1]. (n - k) * int (card (set markers \<inter>
                        set (bin_genes bs (filter (\<lambda>r. cluster_number r = c) t) k)))))
         else lookup2 D c ct)" for c ct
    using look [of c ct] look1 [of ct] e
    by (auto simp: lookup2_def update_conv' split: option.splits)
  ultimately show ?case by blast
qed



lemma upto_map_int: "[0..int m - 1] = map int [0..<m]"
proof (induction m)
  case 0
  then show ?case by simp
next
  case (Suc m)
  have "[0..int (Suc m) - 1] = [0..int m - 1] @ [int m]"
    using upto_rec2 [of 0 "int m"] by simp
  with Suc show ?case by simp
qed

lemma code_sum_is_spec_score:
  assumes "0 < bs" "0 \<le> nb"
  shows "(\<Sum>k\<leftarrow>[0..nb div bs - 1]. (nb div bs - k) * int (card (set markers \<inter> set (bin_genes bs sub k))))
         = spec_score nb bs markers (map gene sub)"
proof -
  have n: "0 \<le> nb div bs" using assms by (simp add: pos_imp_zdiv_nonneg_iff)
  then have up: "[0..nb div bs - 1] = map int [0..<nat (nb div bs)]"
    using upto_map_int [of "nat (nb div bs)"] by simp
  have bin: "set (bin_genes bs sub (int k)) = spec_bin_genes (nat bs) (map gene sub) k" for k
    using assms(1) by (simp add: bin_genes_def spec_bin_genes_def nat_mult_distrib take_map drop_map)
  have w: "k < nat (nb div bs) \<Longrightarrow> nb div bs - int k = int (nat (nb div bs) - k)" for k
    using n by simp
  show ?thesis
    unfolding spec_score_def Let_def up
    by (simp add: o_def bin Int_commute, intro arg_cong [where f = sum_list] map_cong)
       (simp_all add: w)
qed

lemma score_iter_lookup:
  assumes "0 < bin_size" "0 \<le> nb_marker" "distinct (map fst ref_df)"
  shows "\<exists>dict_scores. score_iter ranked_marker nb_marker ref_df bin_size = Inr dict_scores \<and>
     (\<forall>clust cell_type. lookup2 dict_scores clust cell_type =
        (if clust \<in> cluster_number ` set ranked_marker \<and> bin_size \<le> nb_marker then
           map_option (\<lambda>markers. spec_score nb_marker bin_size markers
               (map gene (filter (\<lambda>r. cluster_number r = clust) ranked_marker)))
             (map_of ref_df cell_type)
         else None))"
proof -
  let ?n = "nb_marker div bin_size"
  from score_each_cluster_lookup [OF assms(1,3), of ?n ranked_marker
      "remdups (map cluster_number ranked_marker)" "[]"]
  obtain D where run: "score_each_cluster [1..?n] ?n bin_size ranked_marker ref_df
        (remdups (map cluster_number ranked_marker)) [] = Inr D"
    and look: "\<And>c ct. lookup2 D c ct =
        (if c \<in> set (remdups (map cluster_number ranked_marker)) then
           (case map_of ref_df ct of None \<Rightarrow> None
            | Some markers \<Rightarrow> if ?n \<le> 0 then None else
                Some (\<Sum>k\<leftarrow>[0..?n - 1]. (?n - k) * int (card (set markers \<inter>
                        set (bin_genes bin_size (filter (\<lambda>r. cluster_number r = c) ranked_marker) k)))))
         else lookup2 [] c ct)"
    by blast
  have le: "(?n \<le> 0) = (\<not> bin_size \<le> nb_marker)"
    using pos_imp_zdiv_pos_iff [OF assms(1), of nb_marker] by auto
  have "score_iter ranked_marker nb_marker ref_df bin_size = Inr D"
    using run assms(1,2) by (simp add: score_iter_def int_truediv_pos)
  moreover have "lookup2 D c ct =
        (if c \<in> cluster_number ` set ranked_marker \<and> bin_size \<le> nb_marker then
           map_option (\<lambda>markers. spec_score nb_marker bin_size markers
               (map gene (filter (\<lambda>r. cluster_number r = c) ranked_marker)))
             (map_of ref_df ct)
         else None)" for c ct
    using look [of c ct] le code_sum_is_spec_score [OF assms(1,2)]
    by (auto simp: lookup2_def split: option.splits)
  ultimately show ?thesis by blast
qed

text \<open>
  Claim C3, as amended: for a positive bin size, \<open>score_iter\<close> returns, and as soon as
  there is one bin (\<open>bin_size \<le> nb_marker\<close>) the score it records for every cluster of the
  table and every cell type of the reference is the score of the specification:
  \<open>floor(nb_marker / bin_size)\<close> bins of \<open>bin_size\<close> consecutive rank positions, bin \<open>k\<close>
  weighted \<open>num_bins - k\<close>, and the sum over the bins of the weight times the size of the
  intersection of the bin's genes with the marker set. With no bin
  (\<open>nb_marker < bin_size\<close>) no score is recorded: the dictionary of every cluster stays
  empty.
\<close>

theorem score_iter_weighted_overlap:
  assumes "0 < bin_size" and "0 \<le> nb_marker" and "distinct (map fst ref_df)"
  shows "\<exists>dict_scores. score_iter ranked_marker nb_marker ref_df bin_size = Inr dict_scores \<and>
     (\<forall>clust cell_type. lookup2 dict_scores clust cell_type =
        (if clust \<in> cluster_number ` set ranked_marker \<and> bin_size \<le> nb_marker then
           map_option (\<lambda>markers. spec_score nb_marker bin_size markers
               (map gene (filter (\<lambda>r. cluster_number r = clust) ranked_marker)))
             (map_of ref_df cell_type)
         else None))"
  using score_iter_lookup [OF assms] .

theorem score_iter_weighted_overlap_witness:
  "\<exists>dict_scores. score_iter (example_table 10) 10 [(''CT'', [''g0'', ''g1'', ''g9''])] 2
       = Inr dict_scores \<and> lookup2 dict_scores 0 ''CT'' = Some 11"
proof -
  have s: "spec_score 10 2 [''g0'', ''g1'', ''g9'']
      (map gene (filter (\<lambda>r. cluster_number r = 0) (example_table 10))) = 11"
    by code_simp
  have c: "(0::int) \<in> cluster_number ` set (example_table 10)"
    by code_simp
  show ?thesis
    using score_iter_weighted_overlap [of 2 10 "[(''CT'', [''g0'', ''g1'', ''g9''])]"
        "example_table 10"] s c
    by auto
qed

text \<open>
  The claim as stated fails where there is no bin: with 10 ranked genes and bins of 20 the
  sum of the claim is 0 (an empty sum), but the code records no score at all for the cell
  type, the dictionary of the cluster is empty.
\<close>

theorem score_iter_weighted_overlap_counterexample:
  "score_iter (example_table 10) 10 [(''CT'', [''g0''])] 20 = Inr [(0, [])]
   \<and> lookup2 [(0 :: int, [] :: (celltype \<times> int) list)] 0 ''CT'' = None
   \<and> spec_score 10 20 [''g0''] (map gene (example_table 10)) = 0"
  by code_simp

text \<open>
  The scenario of the specification, run on the code: 100 ranked genes in bins of 20, and a
  marker set of three genes that all sit in bin 0, then in bin 4.
\<close>

lemma score_iter_example_bin0:
  "score_iter (example_table 100) 100 [(''CT'', [''g0'', ''g1'', ''g2''])] 20
     = Inr [(0, [(''CT'', 15)])]"
  by code_simp

lemma score_iter_example_bin4:
  "score_iter (example_table 100) 100 [(''CT'', [''g80'', ''g81'', ''g82''])] 20
     = Inr [(0, [(''CT'', 3)])]"
  by code_simp

section \<open>The remainder past the last full bin\<close>

lemma score_bins_cong:
  assumes "\<forall>k\<in>set ks. map gene (py_slice sub' (k * bs) (bs + k * bs))
                       = map gene (py_slice sub (k * bs) (bs + k * bs))"
  shows "score_bins sl bs sub' ref_df ks d = score_bins sl bs sub ref_df ks d"
  using assms by (induction ks arbitrary: d) (simp_all split: sum.splits)

lemma take_drop_within:
  assumes "a + b \<le> N" and "take N xs = take N ys"
  shows "take b (drop a xs) = take b (drop a ys)"
proof -
  have "take b (drop a zs) = take b (drop a (take N zs))" for zs :: "'a list"
    using assms(1) by (simp add: drop_take min_def)
  with assms(2) show ?thesis by metis
qed

lemma bin_within_full_bins:
  assumes "0 < bs" and "0 \<le> k" and "k < n"
    and "take (nat (n * bs)) (map gene sub') = take (nat (n * bs)) (map gene sub)"
  shows "map gene (py_slice sub' (k * bs) (bs + k * bs))
       = map gene (py_slice sub (k * bs) (bs + k * bs))"
proof -
  have "(k + 1) * bs \<le> n * bs"
    using assms(1,3) by (intro mult_right_mono) simp_all
  moreover have "0 \<le> k * bs" using assms(1,2) by simp
  ultimately have "nat (k * bs) + nat bs \<le> nat (n * bs)"
    using assms(1) by (simp add: algebra_simps nat_le_iff)
  from take_drop_within [OF this assms(4)] show ?thesis
    using assms(1,2) by (simp add: py_slice_bin take_map drop_map)
qed

lemma score_each_cluster_cong:
  assumes "\<forall>c\<in>set cs. score_bins sl bs (filter (\<lambda>r. cluster_number r = c) t') ref_df [0..n - 1] []
                     = score_bins sl bs (filter (\<lambda>r. cluster_number r = c) t) ref_df [0..n - 1] []"
  shows "score_each_cluster sl n bs t' ref_df cs D = score_each_cluster sl n bs t ref_df cs D"
  using assms by (induction cs arbitrary: D) (simp_all split: sum.splits)

text \<open>
  Claim C4: the rank positions past the last full bin are not scored. Two tables with the
  same cluster column whose genes agree, in every cluster, on the first
  \<open>floor(nb_marker / bin_size) * bin_size\<close> rank positions get the same scores: whatever
  gene, marker or not, sits at a remainder position contributes nothing.
\<close>

theorem score_iter_ignores_remainder:
  assumes "0 < bin_size" and "0 \<le> nb_marker"
    and "map cluster_number ranked_marker' = map cluster_number ranked_marker"
    and "\<forall>c\<in>cluster_number ` set ranked_marker.
           take (nat (nb_marker div bin_size * bin_size))
                (map gene (filter (\<lambda>r. cluster_number r = c) ranked_marker'))
         = take (nat (nb_marker div bin_size * bin_size))
                (map gene (filter (\<lambda>r. cluster_number r = c) ranked_marker))"
  shows "score_iter ranked_marker' nb_marker ref_df bin_size
       = score_iter ranked_marker nb_marker ref_df bin_size"
proof -
  let ?n = "nb_marker div bin_size"
  have "score_bins [1..?n] bin_size (filter (\<lambda>r. cluster_number r = c) ranked_marker') ref_df [0..?n - 1] []
      = score_bins [1..?n] bin_size (filter (\<lambda>r. cluster_number r = c) ranked_marker) ref_df [0..?n - 1] []"
    if "c \<in> set (remdups (map cluster_number ranked_marker))" for c
  proof (rule score_bins_cong, rule ballI)
    fix k assume "k \<in> set [0..?n - 1]"
    then have k: "0 \<le> k" "k < ?n" by auto
    from that assms(4) have "take (nat (?n * bin_size))
                (map gene (filter (\<lambda>r. cluster_number r = c) ranked_marker'))
         = take (nat (?n * bin_size))
                (map gene (filter (\<lambda>r. cluster_number r = c) ranked_marker))"
      by auto
    from bin_within_full_bins [OF assms(1) k this]
    show "map gene (py_slice (filter (\<lambda>r. cluster_number r = c) ranked_marker') (k * bin_size) (bin_size + k * bin_size))
        = map gene (py_slice (filter (\<lambda>r. cluster_number r = c) ranked_marker) (k * bin_size) (bin_size + k * bin_size))" .
  qed
  then have "score_each_cluster [1..?n] ?n bin_size ranked_marker' ref_df
               (remdups (map cluster_number ranked_marker)) []
           = score_each_cluster [1..?n] ?n bin_size ranked_marker ref_df
               (remdups (map cluster_number ranked_marker)) []"
    by (intro score_each_cluster_cong) blast
  then show ?thesis
    using assms(1,2,3) by (simp add: score_iter_def int_truediv_pos)
qed

theorem score_iter_ignores_remainder_witness:
  "score_iter ((example_table 5)[4 := (example_table 5 ! 4)\<lparr>gene := ''m''\<rparr>]) 5 [(''CT'', [''m''])] 2
     = score_iter (example_table 5) 5 [(''CT'', [''m''])] 2"
proof -
  have e: "example_table 5 = map (\<lambda>i. \<lparr>row_label = i, z_score = (), adj_pvals = (),
       gene = CHR ''g'' # digits10 i, cluster_number = 0\<rparr>) [0, 1, 2, 3, 4]"
    by (simp add: example_table_def upt_rec)
  show ?thesis
    by (rule score_iter_ignores_remainder) (simp_all add: e)
qed

text \<open>
  The example of the specification, run on the code: 105 ranked genes in bins of 20 give
  5 bins over the ranks 0 to 99, and a marker gene at rank 102 scores 0.
\<close>

lemma score_iter_example_remainder:
  "score_iter ((example_table 105)[102 := (example_table 105 ! 102)\<lparr>gene := ''m''\<rparr>]) 105
       [(''CT'', [''m''])] 20 = Inr [(0, [(''CT'', 0)])]"
  by code_simp

section \<open>Moving a marker gene to an earlier bin\<close>

lemma weighted_sum_as_prefix_sums:
  fixes c :: "nat \<Rightarrow> nat"
  shows "(\<Sum>k<n. (n - k) * c k) = (\<Sum>m<n. \<Sum>k<Suc m. c k)"
proof (induction n)
  case 0
  then show ?case by simp
next
  case (Suc n)
  have "(\<Sum>k<Suc n. (Suc n - k) * c k) = (\<Sum>k<n. (Suc n - k) * c k) + c n"
    by simp
  also have "(\<Sum>k<n. (Suc n - k) * c k) = (\<Sum>k<n. (n - k) * c k + c k)"
    by (intro sum.cong) (auto simp: Suc_diff_le)
  also have "\<dots> = (\<Sum>k<n. (n - k) * c k) + (\<Sum>k<n. c k)"
    by (simp add: sum.distrib)
  finally show ?case using Suc by simp
qed

lemma spec_score_as_sum:
  "spec_score nb bs markers genes =
     int (\<Sum>k<nat (nb div bs). (nat (nb div bs) - k) *
            card (spec_bin_genes (nat bs) genes k \<inter> set markers))"
proof -
  have "sum_list (map f [0..<n]) = sum f {..<n}" for f :: "nat \<Rightarrow> int" and n
    by (simp add: interv_sum_list_conv_sum_set_nat atLeast0LessThan)
  then show ?thesis by (simp add: spec_score_def Let_def)
qed

lemma prefix_overlap:
  assumes "distinct (take (m * b) gs)"
  shows "(\<Sum>k<m. card (spec_bin_genes b gs k \<inter> M)) = card (set (take (m * b) gs) \<inter> M)"
  using assms
proof (induction m)
  case 0
  then show ?case by simp
next
  case (Suc m)
  have "Suc m * b = m * b + b" by simp
  then have split: "take (Suc m * b) gs = take (m * b) gs @ take b (drop (m * b) gs)"
    by (simp only: take_add)
  with Suc.prems have d: "distinct (take (m * b) gs)"
    and disj: "set (take (m * b) gs) \<inter> set (take b (drop (m * b) gs)) = {}"
    by auto
  have "card (set (take (Suc m * b) gs) \<inter> M)
      = card ((set (take (m * b) gs) \<inter> M) \<union> (set (take b (drop (m * b) gs)) \<inter> M))"
    by (simp only: split set_append Int_Un_distrib2)
  also have "\<dots> = card (set (take (m * b) gs) \<inter> M) + card (set (take b (drop (m * b) gs)) \<inter> M)"
    using disj by (intro card_Un_disjoint) auto
  finally show ?case using Suc.IH [OF d] by (simp add: spec_bin_genes_def)
qed

lemma spec_score_as_prefixes:
  assumes "distinct (take (nat (nb div bs) * nat bs) genes)"
  shows "spec_score nb bs markers genes =
     int (\<Sum>m<nat (nb div bs). card (set (take (Suc m * nat bs) genes) \<inter> set markers))"
proof -
  let ?n = "nat (nb div bs)" and ?b = "nat bs"
  have "(\<Sum>k<Suc m. card (spec_bin_genes ?b genes k \<inter> set markers))
        = card (set (take (Suc m * ?b) genes) \<inter> set markers)" if "m < ?n" for m
  proof (rule prefix_overlap)
    from that have "Suc m * ?b \<le> ?n * ?b" by (intro mult_le_mono1) simp
    then have "take (Suc m * ?b) genes = take (Suc m * ?b) (take (?n * ?b) genes)"
      by (simp add: min_def)
    with assms show "distinct (take (Suc m * ?b) genes)"
      by (metis distinct_take)
  qed
  then show ?thesis
    by (simp add: spec_score_as_sum weighted_sum_as_prefix_sums)
qed

lemma card_le_Suc_Diff: "finite A \<Longrightarrow> card A \<le> Suc (card (A - {x}))"
proof (cases "x \<in> A")
  case True
  assume "finite A"
  with True have "card (A - {x}) = card A - 1" by (simp add: card_Diff_singleton)
  then show ?thesis by simp
next
  case False
  then have "A - {x} = A" by auto
  then show ?thesis by simp
qed

lemma prefix_overlap_mono:
  assumes "distinct (take N gs)" and "p < q" and "q < N" and "q < length gs"
    and "gs ! q \<in> M" and "L \<le> N"
  shows "card (set (take L gs) \<inter> M) \<le> card (set (take L (gs[p := gs ! q, q := gs ! p])) \<inter> M)"
proof -
  consider "L \<le> p" | "p < L" "L \<le> q" | "q < L" by linarith
  then show ?thesis
  proof cases
    case 1
    then have "take L (gs[p := gs ! q, q := gs ! p]) = take L gs"
      using assms(2) by simp
    then show ?thesis by simp
  next
    case 2
    let ?xs = "take L gs"
    have len: "p < length ?xs" using 2 assms(2,4) by simp
    have upd: "take L (gs[p := gs ! q, q := gs ! p]) = ?xs[p := gs ! q]"
      using 2 by (simp add: take_update_swap list_update_beyond)
    have dx: "distinct ?xs"
    proof -
      have "?xs = take L (take N gs)" using assms(6) by (simp add: min_def)
      with assms(1) show ?thesis by (metis distinct_take)
    qed
    have notin: "gs ! q \<notin> set ?xs"
    proof
      assume "gs ! q \<in> set ?xs"
      then obtain i where i: "i < length ?xs" "?xs ! i = gs ! q"
        by (auto simp: in_set_conv_nth)
      then have iL: "i < L" "i < length gs" by simp_all
      with i have eq: "gs ! i = gs ! q" by simp
      have iN: "i < N" using iL 2 assms(3) by simp
      have e2: "take N gs ! i = take N gs ! q"
        using iN assms(3) eq by simp
      have li: "i < length (take N gs)" and lq: "q < length (take N gs)"
        using iL iN assms(3,4) by simp_all
      from nth_eq_iff_index_eq [OF assms(1) li lq] e2 have "i = q" by blast
      with iL 2 show False by simp
    qed
    have sub: "set ?xs - {?xs ! p} \<subseteq> set (?xs[p := gs ! q])"
      using len dx by (auto simp: set_update_distinct)
    have "gs ! q \<in> set (?xs[p := gs ! q])" using len by (simp add: set_update_memI)
    then have "insert (gs ! q) (set ?xs - {?xs ! p}) \<inter> M \<subseteq> set (?xs[p := gs ! q]) \<inter> M"
      using sub by auto
    then have "card (insert (gs ! q) (set ?xs - {?xs ! p}) \<inter> M) \<le> card (set (?xs[p := gs ! q]) \<inter> M)"
      by (intro card_mono) auto
    moreover have "card (set ?xs \<inter> M) \<le> card (insert (gs ! q) (set ?xs - {?xs ! p}) \<inter> M)"
    proof -
      have e: "insert (gs ! q) (set ?xs - {?xs ! p}) \<inter> M = insert (gs ! q) ((set ?xs \<inter> M) - {?xs ! p})"
        using assms(5) by auto
      have f: "gs ! q \<notin> (set ?xs \<inter> M) - {?xs ! p}" using notin by auto
      have "card (set ?xs \<inter> M) \<le> Suc (card ((set ?xs \<inter> M) - {?xs ! p}))"
        by (rule card_le_Suc_Diff) simp
      then show ?thesis using f by (simp add: e)
    qed
    ultimately show ?thesis using upd by simp
  next
    case 3
    let ?xs = "take L gs"
    have "take L (gs[p := gs ! q, q := gs ! p]) = ?xs[p := ?xs ! q, q := ?xs ! p]"
      using 3 assms(2) by (simp add: take_update_swap)
    moreover have "set (?xs[p := ?xs ! q, q := ?xs ! p]) = set ?xs"
      using 3 assms(2,4) by (intro set_swap) simp_all
    ultimately show ?thesis by simp
  qed
qed

lemma spec_score_swap_mono:
  assumes "distinct (take (nat (nb div bs) * nat bs) gs)"
    and "p < q" and "q < nat (nb div bs) * nat bs" and "q < length gs"
    and "gs ! q \<in> set markers"
  shows "spec_score nb bs markers gs \<le> spec_score nb bs markers (gs[p := gs ! q, q := gs ! p])"
proof -
  let ?n = "nat (nb div bs)" and ?b = "nat bs"
  let ?N = "?n * ?b"
  let ?gs' = "gs[p := gs ! q, q := gs ! p]"
  have t: "take ?N ?gs' = (take ?N gs)[p := take ?N gs ! q, q := take ?N gs ! p]"
    using assms(2,3) by (simp add: take_update_swap)
  have "distinct (take ?N ?gs')"
    unfolding t using assms(1-4) by (subst distinct_swap) simp_all
  then have s': "spec_score nb bs markers ?gs' =
     int (\<Sum>m<?n. card (set (take (Suc m * ?b) ?gs') \<inter> set markers))"
    by (rule spec_score_as_prefixes)
  have s: "spec_score nb bs markers gs =
     int (\<Sum>m<?n. card (set (take (Suc m * ?b) gs) \<inter> set markers))"
    using assms(1) by (rule spec_score_as_prefixes)
  have "card (set (take (Suc m * ?b) gs) \<inter> set markers)
      \<le> card (set (take (Suc m * ?b) ?gs') \<inter> set markers)" if "m < ?n" for m
  proof (rule prefix_overlap_mono [OF assms(1,2,3,4,5)])
    from that show "Suc m * ?b \<le> ?N" by (intro mult_le_mono1) simp
  qed
  then have "(\<Sum>m<?n. card (set (take (Suc m * ?b) gs) \<inter> set markers))
      \<le> (\<Sum>m<?n. card (set (take (Suc m * ?b) ?gs') \<inter> set markers))"
    by (intro sum_mono) simp
  then show ?thesis unfolding s s' by (simp only: of_nat_le_iff)
qed

text \<open>
  Claim C7, as amended: in a table whose genes at the scored rank positions of the cluster
  (the first \<open>floor(nb_marker / bin_size) * bin_size\<close>) are pairwise distinct, moving a
  matched marker gene to an earlier rank position, in exchange for the gene that was
  there, never lowers the score of the cell type for the cluster. \<open>gs\<close> are the genes of
  the cluster in rank order, \<open>q\<close> is the position of the marker gene and \<open>p\<close> the earlier
  position it moves to.
\<close>

theorem earlier_bin_never_lowers_score:
  assumes "0 < bin_size" and "0 \<le> nb_marker" and "distinct (map fst ref_df)"
    and "map_of ref_df cell_type = Some markers"
    and "map gene (filter (\<lambda>r. cluster_number r = clust) ranked_marker) = gs"
    and "map gene (filter (\<lambda>r. cluster_number r = clust) ranked_marker')
           = gs[p := gs ! q, q := gs ! p]"
    and "p < q" and "q < length gs" and "q < nat (nb_marker div bin_size) * nat bin_size"
    and "gs ! q \<in> set markers"
    and "distinct (take (nat (nb_marker div bin_size) * nat bin_size) gs)"
  shows "\<exists>d d' s s'. score_iter ranked_marker nb_marker ref_df bin_size = Inr d
     \<and> score_iter ranked_marker' nb_marker ref_df bin_size = Inr d'
     \<and> lookup2 d clust cell_type = Some s \<and> lookup2 d' clust cell_type = Some s' \<and> s \<le> s'"
proof -
  let ?gs' = "gs[p := gs ! q, q := gs ! p]"
  from assms(8) have ne: "gs \<noteq> []" by auto
  with assms(5) have "filter (\<lambda>r. cluster_number r = clust) ranked_marker \<noteq> []" by auto
  then have c: "clust \<in> cluster_number ` set ranked_marker"
    by (auto simp: filter_empty_conv)
  from ne have "?gs' \<noteq> []" by simp
  with assms(6) have "filter (\<lambda>r. cluster_number r = clust) ranked_marker' \<noteq> []"
    by (metis list.map_disc_iff)
  then have c': "clust \<in> cluster_number ` set ranked_marker'"
    by (auto simp: filter_empty_conv)
  have bins: "bin_size \<le> nb_marker"
  proof (rule ccontr)
    assume "\<not> bin_size \<le> nb_marker"
    then have "nb_marker div bin_size = 0" using assms(1,2) by (simp add: div_pos_pos_trivial)
    with assms(9) show False by simp
  qed
  from score_iter_lookup [OF assms(1-3), of ranked_marker] obtain d where
    d: "score_iter ranked_marker nb_marker ref_df bin_size = Inr d" and
    l: "lookup2 d clust cell_type = Some (spec_score nb_marker bin_size markers gs)"
    using c bins assms(4,5) by auto
  from score_iter_lookup [OF assms(1-3), of ranked_marker'] obtain d' where
    d': "score_iter ranked_marker' nb_marker ref_df bin_size = Inr d'" and
    l': "lookup2 d' clust cell_type = Some (spec_score nb_marker bin_size markers ?gs')"
    using c' bins assms(4,6) by auto
  from spec_score_swap_mono [OF assms(11,7,9,8,10)] d d' l l' show ?thesis by blast
qed

lemma table_of_genes4:
  "map gene (filter (\<lambda>r. cluster_number r = 0) (table_of_genes [a, b, c, d])) = [a, b, c, d]"
  by (simp add: table_of_genes_def upt_rec)

theorem earlier_bin_never_lowers_score_witness:
  "\<exists>d d' s s'. score_iter (table_of_genes [''a'', ''x'', ''g'', ''y'']) 4 [(''CT'', [''g''])] 2 = Inr d
     \<and> score_iter (table_of_genes [''a'', ''g'', ''x'', ''y'']) 4 [(''CT'', [''g''])] 2 = Inr d'
     \<and> lookup2 d 0 ''CT'' = Some s \<and> lookup2 d' 0 ''CT'' = Some s' \<and> s \<le> s'"
  by (rule earlier_bin_never_lowers_score [where gs = "[''a'', ''x'', ''g'', ''y'']"
        and p = 1 and q = 2 and markers = "[''g'']"])
     (simp_all add: table_of_genes4)

text \<open>
  The claim as stated fails on a table that repeats a gene, as the randomized tables do
  (the genes are drawn with replacement): the overlap of a bin is the size of a set
  intersection, so a gene counts once per bin. With bins of 2 and the marker \<open>g\<close> at the
  ranks 0 and 2 the score is 2 + 1 = 3; moving the \<open>g\<close> of rank 2 (bin 1) to rank 1 (bin 0)
  leaves one match in bin 0 and none in bin 1, and the score is 2.
\<close>

theorem earlier_bin_never_lowers_score_counterexample:
  "score_iter (table_of_genes [''g'', ''x'', ''g'', ''y'']) 4 [(''CT'', [''g''])] 2
     = Inr [(0, [(''CT'', 3)])]
   \<and> score_iter (table_of_genes [''g'', ''g'', ''x'', ''y'']) 4 [(''CT'', [''g''])] 2
     = Inr [(0, [(''CT'', 2)])]"
  by code_simp

section \<open>The randomized copy of the table\<close>

lemma np_random_choice_ok:
  assumes "a \<noteq> []"
  shows "\<exists>picks. np_random_choice a n draw = Inr picks \<and> length picks = n \<and> set picks \<subseteq> set a"
  using assms by (auto simp: np_random_choice_def)

lemma map_field_set_gene:
  assumes "length col = length df" and "\<And>r g. f (r\<lparr>gene := g\<rparr>) = f r"
  shows "map f (map (\<lambda>(r, g). r\<lparr>gene := g\<rparr>) (zip df col)) = map f df"
  using assms by (induction df col rule: list_induct2') auto

lemma map_gene_set_gene:
  assumes "length col = length df"
  shows "map gene (map (\<lambda>(r, g). r\<lparr>gene := g\<rparr>) (zip df col)) = col"
  using assms by (induction df col rule: list_induct2') auto

lemma set_gene_column_ok:
  assumes "length col = length df"
  shows "\<exists>df'. set_gene_column df col = Inr df' \<and> length df' = length df
     \<and> map gene df' = col
     \<and> map row_label df' = map row_label df \<and> map cluster_number df' = map cluster_number df
     \<and> map z_score df' = map z_score df \<and> map adj_pvals df' = map adj_pvals df"
  using assms map_gene_set_gene [OF assms]
    map_field_set_gene [OF assms, of row_label] map_field_set_gene [OF assms, of cluster_number]
    map_field_set_gene [OF assms, of z_score] map_field_set_gene [OF assms, of adj_pvals]
  by (simp add: set_gene_column_def del: map_map)

lemma randomize_genes_result:
  assumes "marker_df < length store" and "gene_list \<noteq> []"
  shows "\<exists>df. randomize_genes store marker_df gene_list draw
            = Inr (length store, store @ [df])
     \<and> length df = length (store ! marker_df)
     \<and> set (map gene df) \<subseteq> set gene_list
     \<and> map row_label df = map row_label (store ! marker_df)
     \<and> map cluster_number df = map cluster_number (store ! marker_df)
     \<and> map z_score df = map z_score (store ! marker_df)
     \<and> map adj_pvals df = map adj_pvals (store ! marker_df)"
proof -
  let ?orig = "store ! marker_df"
  from np_random_choice_ok [OF assms(2), of "length ?orig" draw] obtain picks where
    p: "np_random_choice gene_list (length ?orig) draw = Inr picks" "length picks = length ?orig"
       "set picks \<subseteq> set gene_list" by blast
  from set_gene_column_ok [OF p(2)] obtain df where
    d: "set_gene_column ?orig picks = Inr df" "length df = length ?orig" "map gene df = picks"
       "map row_label df = map row_label ?orig" "map cluster_number df = map cluster_number ?orig"
       "map z_score df = map z_score ?orig" "map adj_pvals df = map adj_pvals ?orig" by blast
  have "randomize_genes store marker_df gene_list draw = Inr (length store, store @ [df])"
    using p(1) d(1) by (simp add: randomize_genes_def df_copy_def)
  with d p(3) show ?thesis by auto
qed

text \<open>
  Claim C8: with a background pool that is not empty, \<open>randomize_genes\<close> returns a
  reference to a new data frame. Every object that was in the store before the call,
  the input table among them, is as it was; the new table has the rows of the input with
  the same cluster number, rank position, z-score and adjusted p-value, and its genes are
  drawn from the pool.
\<close>

theorem randomize_genes_changes_genes_only:
  assumes "marker_df < length store" and "gene_list \<noteq> []"
  shows "\<exists>copy_df store'. randomize_genes store marker_df gene_list draw = Inr (copy_df, store')
     \<and> length store \<le> copy_df \<and> copy_df < length store'
     \<and> take (length store) store' = store
     \<and> store' ! marker_df = store ! marker_df
     \<and> length (store' ! copy_df) = length (store ! marker_df)
     \<and> map cluster_number (store' ! copy_df) = map cluster_number (store ! marker_df)
     \<and> map row_label (store' ! copy_df) = map row_label (store ! marker_df)
     \<and> map z_score (store' ! copy_df) = map z_score (store ! marker_df)
     \<and> map adj_pvals (store' ! copy_df) = map adj_pvals (store ! marker_df)
     \<and> set (map gene (store' ! copy_df)) \<subseteq> set gene_list"
proof -
  from randomize_genes_result [OF assms, of draw] obtain df where
    "randomize_genes store marker_df gene_list draw = Inr (length store, store @ [df])"
    "length df = length (store ! marker_df)"
    "set (map gene df) \<subseteq> set gene_list"
    "map row_label df = map row_label (store ! marker_df)"
    "map cluster_number df = map cluster_number (store ! marker_df)"
    "map z_score df = map z_score (store ! marker_df)"
    "map adj_pvals df = map adj_pvals (store ! marker_df)" by blast
  with assms(1) show ?thesis by (simp add: nth_append)
qed

theorem randomize_genes_changes_genes_only_witness:
  "\<exists>copy_df store'. randomize_genes [example_table 3] 0 [''x'', ''y''] (\<lambda>j. j) = Inr (copy_df, store')
     \<and> store' ! 0 = example_table 3
     \<and> map cluster_number (store' ! copy_df) = [0, 0, 0]
     \<and> map row_label (store' ! copy_df) = [0, 1, 2]
     \<and> set (map gene (store' ! copy_df)) \<subseteq> {''x'', ''y''}"
proof -
  have e: "example_table 3 = map (\<lambda>i. \<lparr>row_label = i, z_score = (), adj_pvals = (),
       gene = CHR ''g'' # digits10 i, cluster_number = 0\<rparr>) [0, 1, 2]"
    by (simp add: example_table_def upt_rec)
  show ?thesis
    using randomize_genes_changes_genes_only [of 0 "[example_table 3]" "[''x'', ''y'']" "\<lambda>j. j"]
    by (auto simp: e)
qed

section \<open>The permutation test\<close>

subsection \<open>Keys of the score dictionary\<close>

lemma set_update_subset: "set (AList.update k v al) \<subseteq> insert (k, v) (set al)"
  by (induction al) auto

lemma score_cell_types_distinct:
  "score_cell_types sl k genes ref_df d = Inr d' \<Longrightarrow> distinct (map fst d) \<Longrightarrow> distinct (map fst d')"
  by (induction ref_df arbitrary: d)
     (auto simp: distinct_update Let_def split: sum.splits option.splits)

lemma score_bins_distinct:
  "score_bins sl bs sub ref_df ks d = Inr d' \<Longrightarrow> distinct (map fst d) \<Longrightarrow> distinct (map fst d')"
  by (induction ks arbitrary: d)
     (auto simp: Let_def split: sum.splits dest: score_cell_types_distinct)

lemma score_each_cluster_distinct:
  assumes "score_each_cluster sl n bs t ref_df cs D = Inr D'"
    and "distinct (map fst D)" and "\<forall>cd\<in>set D. distinct (map fst (snd cd))"
  shows "distinct (map fst D') \<and> (\<forall>cd\<in>set D'. distinct (map fst (snd cd)))"
  using assms
proof (induction cs arbitrary: D)
  case Nil
  then show ?case by simp
next
  case (Cons clust rest)
  from Cons.prems(1) obtain d where
    b: "score_bins sl bs (filter (\<lambda>r. cluster_number r = clust) t) ref_df [0..n - 1] [] = Inr d"
    and r: "score_each_cluster sl n bs t ref_df rest (AList.update clust d D) = Inr D'"
    by (auto simp: Let_def split: sum.splits)
  have dd: "distinct (map fst d)" using score_bins_distinct [OF b] by simp
  have "\<forall>cd\<in>set (AList.update clust d D). distinct (map fst (snd cd))"
    using set_update_subset [of clust d D] Cons.prems(3) dd by auto
  with Cons.IH [OF r] Cons.prems(2) show ?case by (simp add: distinct_update)
qed

lemma score_iter_distinct:
  assumes "score_iter t nb ref_df bs = Inr D"
  shows "distinct (map fst D) \<and> (\<forall>cd\<in>set D. distinct (map fst (snd cd)))"
  using assms score_each_cluster_distinct [of _ _ bs t ref_df _ "[]" D]
  by (auto simp: score_iter_def split: sum.splits)

lemma spec_score_nonneg: "0 \<le> spec_score nb bs markers genes"
  unfolding spec_score_def Let_def by (rule sum_list_nonneg) auto

subsection \<open>The scores of a randomized table\<close>

lemma i_dict_of_lookup:
  assumes "0 < bin_size" "0 \<le> nb_marker" "distinct (map fst ref_marker)" "gene_list \<noteq> []"
    and "score_iter ranked_marker nb_marker ref_marker bin_size = Inr ref_score"
  shows "\<exists>i_dict. i_dict_of ranked_marker nb_marker ref_marker bin_size gene_list draw = Inr i_dict
     \<and> (\<forall>c ct. (lookup2 i_dict c ct = None) = (lookup2 ref_score c ct = None))
     \<and> (\<forall>c ct v. lookup2 i_dict c ct = Some v \<longrightarrow> 0 \<le> v)"
proof -
  from randomize_genes_result [of 0 "[ranked_marker]" gene_list draw] assms(4)
  obtain df where rg: "randomize_genes [ranked_marker] 0 gene_list draw = Inr (1, [ranked_marker, df])"
    and cl: "map cluster_number df = map cluster_number ranked_marker"
    by auto
  from score_iter_lookup [OF assms(1-3), of df] obtain i_dict where
    run: "score_iter df nb_marker ref_marker bin_size = Inr i_dict" and
    look: "\<And>c ct. lookup2 i_dict c ct =
        (if c \<in> cluster_number ` set df \<and> bin_size \<le> nb_marker then
           map_option (\<lambda>markers. spec_score nb_marker bin_size markers
               (map gene (filter (\<lambda>r. cluster_number r = c) df)))
             (map_of ref_marker ct)
         else None)" by blast
  from score_iter_lookup [OF assms(1-3), of ranked_marker] assms(5) have
    look0: "\<And>c ct. lookup2 ref_score c ct =
        (if c \<in> cluster_number ` set ranked_marker \<and> bin_size \<le> nb_marker then
           map_option (\<lambda>markers. spec_score nb_marker bin_size markers
               (map gene (filter (\<lambda>r. cluster_number r = c) ranked_marker)))
             (map_of ref_marker ct)
         else None)" by auto
  have same: "cluster_number ` set df = cluster_number ` set ranked_marker"
    using cl by (metis set_map)
  have "i_dict_of ranked_marker nb_marker ref_marker bin_size gene_list draw = Inr i_dict"
    using rg run by (simp add: i_dict_of_def)
  moreover have "(lookup2 i_dict c ct = None) = (lookup2 ref_score c ct = None)" for c ct
    by (simp add: look look0 same)
  moreover have "0 \<le> v" if "lookup2 i_dict c ct = Some v" for c ct v
    using that spec_score_nonneg by (auto simp: look split: if_splits)
  ultimately show ?thesis by blast
qed

subsection \<open>One comparison pass\<close>

lemma lookup2_update_inner:
  assumes "map_of d c = Some inner"
  shows "lookup2 (AList.update c (AList.update ct v inner) d) c' ct'
       = (if c' = c \<and> ct' = ct then Some v else lookup2 d c' ct')"
  using assms by (auto simp: lookup2_def update_conv')

lemma lookup2_SomeD:
  assumes "lookup2 d c ct = Some v"
  shows "\<exists>inner. map_of d c = Some inner \<and> map_of inner ct = Some v"
  using assms by (auto simp: lookup2_def split: option.splits)

lemma compare_cell_types_lookup:
  assumes "\<forall>co\<in>set items. lookup2 i_dict clust (fst co) \<noteq> None"
    and "\<forall>co\<in>set items. lookup2 count_dict clust (fst co) \<noteq> None"
    and "distinct (map fst items)"
  shows "\<exists>cd. compare_cell_types i_dict clust items count_dict = Inr cd \<and>
     (\<forall>c ct. lookup2 cd c ct =
        (if c = clust then
           (case map_of items ct of None \<Rightarrow> lookup2 count_dict c ct
            | Some observed \<Rightarrow> map_option (bump observed (lookup2 i_dict c ct)) (lookup2 count_dict c ct))
         else lookup2 count_dict c ct))"
  using assms
proof (induction items arbitrary: count_dict)
  case Nil
  then show ?case by simp
next
  case (Cons co rest)
  obtain ct0 observed0 where co: "co = (ct0, observed0)" by (cases co)
  from Cons.prems(1) co obtain v where v: "lookup2 i_dict clust ct0 = Some v" by auto
  from lookup2_SomeD [OF v] obtain i_clust where
    ic: "map_of i_dict clust = Some i_clust" "map_of i_clust ct0 = Some v" by blast
  from Cons.prems(2) co obtain n where n: "lookup2 count_dict clust ct0 = Some n" by auto
  from lookup2_SomeD [OF n] obtain counts where
    cc: "map_of count_dict clust = Some counts" "map_of counts ct0 = Some n" by blast
  let ?cd1 = "if observed0 \<le> v then AList.update clust (AList.update ct0 (n + 1) counts) count_dict
              else count_dict"
  have l1: "lookup2 ?cd1 c ct = (if c = clust \<and> ct = ct0 then Some (bump observed0 (Some v) n)
                                 else lookup2 count_dict c ct)" for c ct
    using lookup2_update_inner [OF cc(1), of ct0 "n + 1" c ct] n
    by (auto simp: bump_def meets_def)
  have step: "compare_cell_types i_dict clust (co # rest) count_dict
            = compare_cell_types i_dict clust rest ?cd1"
    using ic cc co by (simp add: dict_get_def)
  from Cons.prems(3) co have dist: "distinct (map fst rest)" and notin: "ct0 \<notin> fst ` set rest"
    by auto
  have p1: "\<forall>co\<in>set rest. lookup2 i_dict clust (fst co) \<noteq> None" using Cons.prems(1) by simp
  have p2: "\<forall>co\<in>set rest. lookup2 ?cd1 clust (fst co) \<noteq> None"
    using Cons.prems(2) by (simp add: l1)
  from Cons.IH [OF p1 p2 dist] obtain cd where
    run: "compare_cell_types i_dict clust rest ?cd1 = Inr cd" and
    look: "\<And>c ct. lookup2 cd c ct =
        (if c = clust then
           (case map_of rest ct of None \<Rightarrow> lookup2 ?cd1 c ct
            | Some observed \<Rightarrow> map_option (bump observed (lookup2 i_dict c ct)) (lookup2 ?cd1 c ct))
         else lookup2 ?cd1 c ct)" by blast
  have none: "map_of rest ct0 = None" using notin by (simp add: map_of_eq_None_iff)
  have "lookup2 cd c ct =
        (if c = clust then
           (case map_of (co # rest) ct of None \<Rightarrow> lookup2 count_dict c ct
            | Some observed \<Rightarrow> map_option (bump observed (lookup2 i_dict c ct)) (lookup2 count_dict c ct))
         else lookup2 count_dict c ct)" for c ct
  proof (cases "c = clust \<and> ct = ct0")
    case True
    then show ?thesis using look [of c ct] l1 [of c ct] none v n co by simp
  next
    case False
    then show ?thesis using look [of c ct] l1 [of c ct] co
      by (auto split: option.splits)
  qed
  with run step show ?case by auto
qed


lemma lookup2_Cons:
  "lookup2 ((c0, inner) # rest) c ct = (if c = c0 then map_of inner ct else lookup2 rest c ct)"
  by (simp add: lookup2_def)

lemma lookup2_notin: "c \<notin> fst ` set d \<Longrightarrow> lookup2 d c ct = None"
proof -
  assume "c \<notin> fst ` set d"
  then have "map_of d c = None" by (simp add: map_of_eq_None_iff)
  then show ?thesis by (simp add: lookup2_def)
qed

lemma compare_clusters_lookup:
  assumes "distinct (map fst css)" and "\<forall>cs\<in>set css. distinct (map fst (snd cs))"
    and "\<forall>c ct. lookup2 css c ct \<noteq> None
           \<longrightarrow> lookup2 i_dict c ct \<noteq> None \<and> lookup2 count_dict c ct \<noteq> None"
  shows "\<exists>cd. compare_clusters i_dict css count_dict = Inr cd \<and>
     (\<forall>c ct. lookup2 cd c ct =
        (case lookup2 css c ct of None \<Rightarrow> lookup2 count_dict c ct
         | Some observed \<Rightarrow> map_option (bump observed (lookup2 i_dict c ct)) (lookup2 count_dict c ct)))"
  using assms
proof (induction css arbitrary: count_dict)
  case Nil
  then show ?case by (simp add: lookup2_def)
next
  case (Cons cs rest)
  obtain clust items where cs: "cs = (clust, items)" by (cases cs)
  from Cons.prems(1) cs have dr: "distinct (map fst rest)" and notin: "clust \<notin> fst ` set rest"
    by auto
  from Cons.prems(2) cs have di: "distinct (map fst items)"
    and dr2: "\<forall>cs\<in>set rest. distinct (map fst (snd cs))" by auto
  have mem: "map_of items (fst co) \<noteq> None" if "co \<in> set items" for co
    using that by (simp add: map_of_eq_None_iff)
  have a1: "\<forall>co\<in>set items. lookup2 i_dict clust (fst co) \<noteq> None"
    using Cons.prems(3) mem cs by (simp add: lookup2_Cons)
  have a2: "\<forall>co\<in>set items. lookup2 count_dict clust (fst co) \<noteq> None"
    using Cons.prems(3) mem cs by (simp add: lookup2_Cons)
  from compare_cell_types_lookup [OF a1 a2 di] obtain cd1 where
    run1: "compare_cell_types i_dict clust items count_dict = Inr cd1" and
    look1: "\<And>c ct. lookup2 cd1 c ct =
        (if c = clust then
           (case map_of items ct of None \<Rightarrow> lookup2 count_dict c ct
            | Some observed \<Rightarrow> map_option (bump observed (lookup2 i_dict c ct)) (lookup2 count_dict c ct))
         else lookup2 count_dict c ct)" by blast
  have rn: "lookup2 rest clust ct = None" for ct
    using notin by (rule lookup2_notin)
  have a3: "\<forall>c ct. lookup2 rest c ct \<noteq> None
           \<longrightarrow> lookup2 i_dict c ct \<noteq> None \<and> lookup2 cd1 c ct \<noteq> None"
  proof (intro allI impI)
    fix c ct assume h: "lookup2 rest c ct \<noteq> None"
    with rn have "c \<noteq> clust" by auto
    with h Cons.prems(3) cs show "lookup2 i_dict c ct \<noteq> None \<and> lookup2 cd1 c ct \<noteq> None"
      by (simp add: lookup2_Cons look1)
  qed
  from Cons.IH [OF dr dr2 a3] obtain cd where
    run: "compare_clusters i_dict rest cd1 = Inr cd" and
    look: "\<And>c ct. lookup2 cd c ct =
        (case lookup2 rest c ct of None \<Rightarrow> lookup2 cd1 c ct
         | Some observed \<Rightarrow> map_option (bump observed (lookup2 i_dict c ct)) (lookup2 cd1 c ct))"
    by blast
  have "lookup2 cd c ct =
        (case lookup2 (cs # rest) c ct of None \<Rightarrow> lookup2 count_dict c ct
         | Some observed \<Rightarrow> map_option (bump observed (lookup2 i_dict c ct)) (lookup2 count_dict c ct))"
    for c ct
  proof (cases "c = clust")
    case True
    then show ?thesis using look [of c ct] look1 [of c ct] rn [of ct] cs
      by (simp add: lookup2_Cons)
  next
    case False
    then show ?thesis using look [of c ct] look1 [of c ct] cs
      by (simp add: lookup2_Cons split: option.splits)
  qed
  moreover have "compare_clusters i_dict (cs # rest) count_dict = Inr cd"
    using run run1 cs by simp
  ultimately show ?case by blast
qed

subsection \<open>The loop over the iterations\<close>

lemma permuted_score_Inr:
  "i_dict_of t nb ref_marker bs gl draw = Inr d \<Longrightarrow> permuted_score t nb ref_marker bs gl draw c ct = lookup2 d c ct"
  by (simp add: permuted_score_def)

lemma permutation_loop_lookup:
  assumes "\<forall>i\<in>set iters. \<exists>d. i_dict_of t nb ref_marker bs gl (draws i) = Inr d
              \<and> (\<forall>c ct. lookup2 ref_score c ct \<noteq> None \<longrightarrow> lookup2 d c ct \<noteq> None)"
    and "distinct (map fst ref_score)" and "\<forall>cs\<in>set ref_score. distinct (map fst (snd cs))"
    and "\<forall>c ct. lookup2 ref_score c ct \<noteq> None \<longrightarrow> lookup2 count_dict c ct \<noteq> None"
  shows "\<exists>cd. permutation_loop t nb ref_marker bs gl draws ref_score iters count_dict = Inr cd \<and>
     (\<forall>c ct. lookup2 cd c ct =
        (case lookup2 ref_score c ct of None \<Rightarrow> lookup2 count_dict c ct
         | Some observed \<Rightarrow>
             map_option (\<lambda>n. n + int (length (filter
                   (\<lambda>i. meets observed (permuted_score t nb ref_marker bs gl (draws i) c ct)) iters)))
               (lookup2 count_dict c ct)))"
  using assms(1,4)
proof (induction iters arbitrary: count_dict)
  case Nil
  then show ?case by (auto simp: option.map_ident split: option.splits)
next
  case (Cons i rest)
  from Cons.prems(1) obtain d where
    d: "i_dict_of t nb ref_marker bs gl (draws i) = Inr d"
    and dom: "\<And>c ct. lookup2 ref_score c ct \<noteq> None \<Longrightarrow> lookup2 d c ct \<noteq> None"
    by auto
  have a: "\<forall>c ct. lookup2 ref_score c ct \<noteq> None
           \<longrightarrow> lookup2 d c ct \<noteq> None \<and> lookup2 count_dict c ct \<noteq> None"
    using dom Cons.prems(2) by blast
  from compare_clusters_lookup [OF assms(2,3) a] obtain cd1 where
    run1: "compare_clusters d ref_score count_dict = Inr cd1" and
    look1: "\<And>c ct. lookup2 cd1 c ct =
        (case lookup2 ref_score c ct of None \<Rightarrow> lookup2 count_dict c ct
         | Some observed \<Rightarrow> map_option (bump observed (lookup2 d c ct)) (lookup2 count_dict c ct))"
    by blast
  have p1: "\<forall>i\<in>set rest. \<exists>d. i_dict_of t nb ref_marker bs gl (draws i) = Inr d
              \<and> (\<forall>c ct. lookup2 ref_score c ct \<noteq> None \<longrightarrow> lookup2 d c ct \<noteq> None)"
    using Cons.prems(1) by simp
  have p2: "\<forall>c ct. lookup2 ref_score c ct \<noteq> None \<longrightarrow> lookup2 cd1 c ct \<noteq> None"
    using Cons.prems(2) by (auto simp: look1)
  from Cons.IH [OF p1 p2] obtain cd where
    run: "permutation_loop t nb ref_marker bs gl draws ref_score rest cd1 = Inr cd" and
    look: "\<And>c ct. lookup2 cd c ct =
        (case lookup2 ref_score c ct of None \<Rightarrow> lookup2 cd1 c ct
         | Some observed \<Rightarrow>
             map_option (\<lambda>n. n + int (length (filter
                   (\<lambda>i. meets observed (permuted_score t nb ref_marker bs gl (draws i) c ct)) rest)))
               (lookup2 cd1 c ct))"
    by blast
  have ps: "permuted_score t nb ref_marker bs gl (draws i) c ct = lookup2 d c ct" for c ct
    using d by (rule permuted_score_Inr)
  have "lookup2 cd c ct =
        (case lookup2 ref_score c ct of None \<Rightarrow> lookup2 count_dict c ct
         | Some observed \<Rightarrow>
             map_option (\<lambda>n. n + int (length (filter
                   (\<lambda>i. meets observed (permuted_score t nb ref_marker bs gl (draws i) c ct)) (i # rest))))
               (lookup2 count_dict c ct))" for c ct
    using look [of c ct] look1 [of c ct] ps [of c ct]
    by (auto simp: bump_def option.map_comp o_def add.assoc split: option.splits)
  moreover have "permutation_loop t nb ref_marker bs gl draws ref_score (i # rest) count_dict = Inr cd"
    using d run1 run by simp
  ultimately show ?case by blast
qed

subsection \<open>The counters and the division\<close>

lemma map_of_map_values:
  "map_of (map (\<lambda>kv. (fst kv, g (snd kv))) d) k = map_option g (map_of d k)"
  by (induction d) auto

lemma lookup2_map_values:
  "lookup2 (map (\<lambda>cd. (fst cd, map (\<lambda>tc. (fst tc, h (snd tc))) (snd cd))) d) c ct
     = map_option h (lookup2 d c ct)"
  by (simp add: lookup2_def map_of_map_values split: option.splits)

lemma divide_counts_lookup:
  assumes "random_sampling \<noteq> 0"
  shows "\<exists>stat_dict. divide_counts count_dict random_sampling = Inr stat_dict \<and>
     (\<forall>c ct. lookup2 stat_dict c ct
        = map_option (\<lambda>n. of_int n / of_int random_sampling) (lookup2 count_dict c ct))"
  using assms lookup2_map_values [of "\<lambda>n. (of_int n :: rat) / of_int random_sampling" count_dict]
  by (simp add: divide_counts_def)

lemma permutation_test_lookup:
  assumes "0 < bin_size" "0 \<le> nb_marker" "distinct (map fst ref_marker)" "gene_list \<noteq> []"
    and "0 < random_sampling"
    and "score_iter ranked_marker nb_marker ref_marker bin_size = Inr ref_score"
  shows "\<exists>stat_dict. permutation_test ranked_marker nb_marker ref_marker bin_size gene_list draws
             random_sampling ref_score = Inr stat_dict \<and>
     (\<forall>c ct. lookup2 stat_dict c ct =
        map_option (\<lambda>observed. of_nat (length (filter
              (\<lambda>i. meets observed (permuted_score ranked_marker nb_marker ref_marker bin_size
                      gene_list (draws i) c ct)) [0..<nat random_sampling])) / of_int random_sampling)
          (lookup2 ref_score c ct))"
proof -
  let ?init = "map (\<lambda>cs. (fst cs, map (\<lambda>ts. (fst ts, 0::int)) (snd cs))) ref_score"
  have i: "lookup2 ?init c ct = map_option (\<lambda>_. 0) (lookup2 ref_score c ct)" for c ct
    by (rule lookup2_map_values)
  have a1: "\<forall>i\<in>set [0..<nat random_sampling]. \<exists>d. i_dict_of ranked_marker nb_marker ref_marker
               bin_size gene_list (draws i) = Inr d
              \<and> (\<forall>c ct. lookup2 ref_score c ct \<noteq> None \<longrightarrow> lookup2 d c ct \<noteq> None)"
    using i_dict_of_lookup [OF assms(1-4,6)] by metis
  have a4: "\<forall>c ct. lookup2 ref_score c ct \<noteq> None \<longrightarrow> lookup2 ?init c ct \<noteq> None"
    by (simp add: i)
  from score_iter_distinct [OF assms(6)] have
    a2: "distinct (map fst ref_score)" and a3: "\<forall>cs\<in>set ref_score. distinct (map fst (snd cs))"
    by auto
  from permutation_loop_lookup [OF a1 a2 a3 a4] obtain cd where
    run: "permutation_loop ranked_marker nb_marker ref_marker bin_size gene_list draws ref_score
            [0..<nat random_sampling] ?init = Inr cd" and
    look: "\<And>c ct. lookup2 cd c ct =
        (case lookup2 ref_score c ct of None \<Rightarrow> lookup2 ?init c ct
         | Some observed \<Rightarrow>
             map_option (\<lambda>n. n + int (length (filter
                   (\<lambda>i. meets observed (permuted_score ranked_marker nb_marker ref_marker bin_size
                      gene_list (draws i) c ct)) [0..<nat random_sampling])))
               (lookup2 ?init c ct))"
    by blast
  from assms(5) have "random_sampling \<noteq> 0" by simp
  from divide_counts_lookup [OF this, of cd] obtain stat_dict where
    div: "divide_counts cd random_sampling = Inr stat_dict" and
    sl: "\<And>c ct. lookup2 stat_dict c ct
        = map_option (\<lambda>n. of_int n / of_int random_sampling) (lookup2 cd c ct)"
    by blast
  have "permutation_test ranked_marker nb_marker ref_marker bin_size gene_list draws
             random_sampling ref_score = Inr stat_dict"
    using run div by (simp add: permutation_test_def)
  moreover have "lookup2 stat_dict c ct =
        map_option (\<lambda>observed. of_nat (length (filter
              (\<lambda>i. meets observed (permuted_score ranked_marker nb_marker ref_marker bin_size
                      gene_list (draws i) c ct)) [0..<nat random_sampling])) / of_int random_sampling)
          (lookup2 ref_score c ct)" for c ct
    by (cases "lookup2 ref_score c ct") (simp_all add: sl look i)
  ultimately show ?thesis by blast
qed

subsection \<open>The p-values\<close>

text \<open>
  A run for the examples: two ranked genes in bins of one, the cell type \<open>CT\<close> with the
  marker \<open>g0\<close> and \<open>CT2\<close> with \<open>g1\<close>, the pool \<open>g0\<close>, \<open>x\<close>, and two iterations. The
  observed scores are 2 and 1; the first random table is \<open>g0\<close>, \<open>x\<close> and the second
  \<open>x\<close>, \<open>g0\<close>, so \<open>CT\<close> is met once and \<open>CT2\<close> never.
\<close>

lemma example_scores:
  "score_iter (example_table 2) 2 [(''CT'', [''g0'']), (''CT2'', [''g1''])] 1
    = Inr [(0, [(''CT'', 2), (''CT2'', 1)])]"
  by code_simp

lemma example_pvalues:
  "permutation_test (example_table 2) 2 [(''CT'', [''g0'']), (''CT2'', [''g1''])] 1
     [''g0'', ''x''] example_draws 2 [(0, [(''CT'', 2), (''CT2'', 1)])]
    = Inr [(0, [(''CT'', 1/2), (''CT2'', 0)])]"
  by code_simp

text \<open>
  Claim C5: with a positive bin size, a pool that is not empty and at least one iteration,
  the scoring and the permutation test return, a p-value is recorded exactly for the pairs
  of cluster and cell type that have an observed score, and it is the number of iterations
  whose random score is greater than or equal to the observed score (a tie counts),
  divided by the number of iterations.
\<close>

theorem pvalue_is_fraction_of_permutations:
  assumes "0 < bin_size" and "0 \<le> nb_marker" and "distinct (map fst ref_marker)"
    and "gene_list \<noteq> []" and "0 < random_sampling"
  shows "\<exists>ref_score stat_dict.
       score_iter ranked_marker nb_marker ref_marker bin_size = Inr ref_score
     \<and> permutation_test ranked_marker nb_marker ref_marker bin_size gene_list draws
             random_sampling ref_score = Inr stat_dict
     \<and> (\<forall>c ct. lookup2 stat_dict c ct =
          map_option (\<lambda>observed. of_nat (length (filter
                (\<lambda>i. meets observed (permuted_score ranked_marker nb_marker ref_marker bin_size
                        gene_list (draws i) c ct)) [0..<nat random_sampling])) / of_int random_sampling)
            (lookup2 ref_score c ct))"
proof -
  from score_iter_lookup [OF assms(1-3), of ranked_marker] obtain ref_score where
    r: "score_iter ranked_marker nb_marker ref_marker bin_size = Inr ref_score" by blast
  from permutation_test_lookup [OF assms r, of draws] r show ?thesis by blast
qed

theorem pvalue_is_fraction_of_permutations_witness:
  "\<exists>ref_score stat_dict.
       score_iter (example_table 2) 2 [(''CT'', [''g0'']), (''CT2'', [''g1''])] 1 = Inr ref_score
     \<and> permutation_test (example_table 2) 2 [(''CT'', [''g0'']), (''CT2'', [''g1''])] 1
             [''g0'', ''x''] example_draws 2 ref_score = Inr stat_dict
     \<and> lookup2 ref_score 0 ''CT'' = Some 2
     \<and> lookup2 stat_dict 0 ''CT'' = Some (1 / 2)"
proof -
  have n: "length (filter (\<lambda>i. meets 2 (permuted_score (example_table 2) 2
      [(''CT'', [''g0'']), (''CT2'', [''g1''])] 1 [''g0'', ''x''] (example_draws i) 0 ''CT''))
      [0..<nat 2]) = 1"
    by code_simp
  from pvalue_is_fraction_of_permutations [of 1 2 "[(''CT'', [''g0'']), (''CT2'', [''g1''])]"
      "[''g0'', ''x'']" 2 "example_table 2" example_draws]
  obtain ref_score stat_dict where
    a: "score_iter (example_table 2) 2 [(''CT'', [''g0'']), (''CT2'', [''g1''])] 1 = Inr ref_score"
    and b: "permutation_test (example_table 2) 2 [(''CT'', [''g0'']), (''CT2'', [''g1''])] 1
             [''g0'', ''x''] example_draws 2 ref_score = Inr stat_dict"
    and c: "\<And>c ct. lookup2 stat_dict c ct =
          map_option (\<lambda>observed. of_nat (length (filter
                (\<lambda>i. meets observed (permuted_score (example_table 2) 2
                   [(''CT'', [''g0'']), (''CT2'', [''g1''])] 1 [''g0'', ''x''] (example_draws i) c ct))
                 [0..<nat 2])) / of_int 2)
            (lookup2 ref_score c ct)"
    by auto
  from a have rs: "ref_score = [(0, [(''CT'', 2), (''CT2'', 1)])]"
    by (simp add: example_scores)
  then have l: "lookup2 ref_score 0 ''CT'' = Some 2" by (simp add: lookup2_def)
  from c [of 0 "''CT''"] l n have "lookup2 stat_dict 0 ''CT'' = Some (1 / 2)" by simp
  with a b l show ?thesis by blast
qed

lemma length_filter_zero: "length (filter P xs) = 0 \<Longrightarrow> list_all (\<lambda>x. \<not> P x) xs"
  by (induction xs) (auto split: if_splits)

text \<open>
  Claim C6: for at least one iteration, every p-value of the result lies between 0 and 1,
  is a whole number of steps of \<open>1 / random_sampling\<close>, and is 0 only if in no iteration
  the random score reached the observed score.
\<close>

theorem pvalue_bounds_and_resolution:
  assumes "0 < bin_size" and "0 \<le> nb_marker" and "distinct (map fst ref_marker)"
    and "gene_list \<noteq> []" and "1 \<le> random_sampling"
  shows "\<exists>ref_score stat_dict.
       score_iter ranked_marker nb_marker ref_marker bin_size = Inr ref_score
     \<and> permutation_test ranked_marker nb_marker ref_marker bin_size gene_list draws
             random_sampling ref_score = Inr stat_dict
     \<and> (\<forall>c ct p. lookup2 stat_dict c ct = Some p \<longrightarrow>
            0 \<le> p \<and> p \<le> 1
          \<and> (\<exists>m. m \<le> nat random_sampling \<and> p = of_nat m * (1 / of_int random_sampling))
          \<and> (p = 0 \<longrightarrow> (\<exists>observed. lookup2 ref_score c ct = Some observed \<and>
                list_all (\<lambda>i. \<not> meets observed (permuted_score ranked_marker nb_marker ref_marker
                           bin_size gene_list (draws i) c ct)) [0..<nat random_sampling])))"
proof -
  from assms(5) have K: "0 < random_sampling" by simp
  from score_iter_lookup [OF assms(1-3), of ranked_marker] obtain ref_score where
    r: "score_iter ranked_marker nb_marker ref_marker bin_size = Inr ref_score" by blast
  from permutation_test_lookup [OF assms(1-4) K r, of draws] obtain stat_dict where
    run: "permutation_test ranked_marker nb_marker ref_marker bin_size gene_list draws
             random_sampling ref_score = Inr stat_dict" and
    look: "\<And>c ct. lookup2 stat_dict c ct =
          map_option (\<lambda>observed. of_nat (length (filter
                (\<lambda>i. meets observed (permuted_score ranked_marker nb_marker ref_marker bin_size
                        gene_list (draws i) c ct)) [0..<nat random_sampling])) / of_int random_sampling)
            (lookup2 ref_score c ct)" by blast
  have "0 \<le> p \<and> p \<le> 1
          \<and> (\<exists>m. m \<le> nat random_sampling \<and> p = of_nat m * (1 / of_int random_sampling))
          \<and> (p = 0 \<longrightarrow> (\<exists>observed. lookup2 ref_score c ct = Some observed \<and>
                list_all (\<lambda>i. \<not> meets observed (permuted_score ranked_marker nb_marker ref_marker
                           bin_size gene_list (draws i) c ct)) [0..<nat random_sampling]))"
    if p: "lookup2 stat_dict c ct = Some p" for c ct p
  proof -
    from p look [of c ct] obtain observed where
      o: "lookup2 ref_score c ct = Some observed" and
      pe: "p = of_nat (length (filter
                (\<lambda>i. meets observed (permuted_score ranked_marker nb_marker ref_marker bin_size
                        gene_list (draws i) c ct)) [0..<nat random_sampling])) / of_int random_sampling"
      by auto
    let ?m = "length (filter
                (\<lambda>i. meets observed (permuted_score ranked_marker nb_marker ref_marker bin_size
                        gene_list (draws i) c ct)) [0..<nat random_sampling])"
    have le: "?m \<le> nat random_sampling"
      using length_filter_le [of _ "[0..<nat random_sampling]"] by simp
    have Kr: "(0::rat) < of_int random_sampling" using K by simp
    have kk: "(of_nat (nat random_sampling) :: rat) = of_int random_sampling"
      using K by simp
    have "(of_nat ?m :: rat) \<le> of_nat (nat random_sampling)" using le by (simp only: of_nat_le_iff)
    then have le1: "(of_nat ?m :: rat) \<le> of_int random_sampling" using kk by simp
    have b0: "0 \<le> p" using pe Kr by simp
    have b1: "p \<le> 1" using pe Kr le1 by (simp add: divide_le_eq)
    have mult: "p = of_nat ?m * (1 / of_int random_sampling)" using pe by simp
    have zero: "list_all (\<lambda>i. \<not> meets observed (permuted_score ranked_marker nb_marker ref_marker
                           bin_size gene_list (draws i) c ct)) [0..<nat random_sampling]"
      if "p = 0"
    proof -
      from that pe Kr have "?m = 0" by simp
      then show ?thesis by (rule length_filter_zero)
    qed
    from b0 b1 mult le zero o show ?thesis by blast
  qed
  with r run show ?thesis by blast
qed

theorem pvalue_bounds_and_resolution_witness:
  "\<exists>ref_score stat_dict.
       score_iter (example_table 2) 2 [(''CT'', [''g0'']), (''CT2'', [''g1''])] 1 = Inr ref_score
     \<and> permutation_test (example_table 2) 2 [(''CT'', [''g0'']), (''CT2'', [''g1''])] 1
             [''g0'', ''x''] example_draws 2 ref_score = Inr stat_dict
     \<and> lookup2 stat_dict 0 ''CT2'' = Some 0
     \<and> lookup2 ref_score 0 ''CT2'' = Some 1
     \<and> list_all (\<lambda>i. \<not> meets 1 (permuted_score (example_table 2) 2
            [(''CT'', [''g0'']), (''CT2'', [''g1''])] 1 [''g0'', ''x''] (example_draws i) 0 ''CT2''))
          [0..<nat 2]"
proof -
  from pvalue_bounds_and_resolution [of 1 2 "[(''CT'', [''g0'']), (''CT2'', [''g1''])]"
      "[''g0'', ''x'']" 2 "example_table 2" example_draws]
  obtain ref_score stat_dict where
    a: "score_iter (example_table 2) 2 [(''CT'', [''g0'']), (''CT2'', [''g1''])] 1 = Inr ref_score"
    and b: "permutation_test (example_table 2) 2 [(''CT'', [''g0'']), (''CT2'', [''g1''])] 1
             [''g0'', ''x''] example_draws 2 ref_score = Inr stat_dict"
    and c: "\<And>c ct p. lookup2 stat_dict c ct = Some p \<Longrightarrow>
          (p = 0 \<longrightarrow> (\<exists>observed. lookup2 ref_score c ct = Some observed \<and>
                list_all (\<lambda>i. \<not> meets observed (permuted_score (example_table 2) 2
                   [(''CT'', [''g0'']), (''CT2'', [''g1''])] 1 [''g0'', ''x''] (example_draws i) c ct))
                 [0..<nat 2]))"
    by auto
  from a have rs: "ref_score = [(0, [(''CT'', 2), (''CT2'', 1)])]"
    by (simp add: example_scores)
  with b have st: "stat_dict = [(0, [(''CT'', 1/2), (''CT2'', 0)])]"
    by (simp add: example_pvalues)
  have l: "lookup2 ref_score 0 ''CT2'' = Some 1" using rs by (simp add: lookup2_def)
  have p: "lookup2 stat_dict 0 ''CT2'' = Some 0" using st by (simp add: lookup2_def)
  from c [OF p] l have "list_all (\<lambda>i. \<not> meets 1 (permuted_score (example_table 2) 2
            [(''CT'', [''g0'']), (''CT2'', [''g1''])] 1 [''g0'', ''x''] (example_draws i) 0 ''CT2''))
          [0..<nat 2]" by auto
  with a b l p show ?thesis by blast
qed



lemma empty_marker_set_scores_zero:
  assumes "0 < bin_size" and "0 \<le> nb_marker" and "distinct (map fst ref_marker)"
    and "score_iter ranked_marker nb_marker ref_marker bin_size = Inr ref_score"
    and "map_of ref_marker ct = Some []" and "lookup2 ref_score c ct = Some s"
  shows "s = 0"
proof -
  from score_iter_lookup [OF assms(1-3), of ranked_marker] assms(4)
  have "lookup2 ref_score c ct =
        (if c \<in> cluster_number ` set ranked_marker \<and> bin_size \<le> nb_marker then
           map_option (\<lambda>markers. spec_score nb_marker bin_size markers
               (map gene (filter (\<lambda>r. cluster_number r = c) ranked_marker)))
             (map_of ref_marker ct)
         else None)" by auto
  with assms(5,6) show ?thesis
    by (auto simp: spec_score_def Let_def split: if_splits)
qed

section \<open>The prerequisites of score_clusters\<close>

text \<open>
  Claim C9, as amended: when the observations have neither a \<open>louvain\<close> nor a \<open>leiden\<close>
  column, or when \<open>rank_genes_groups\<close> is missing, \<open>score_clusters\<close> stops at its first
  statement and returns an error message. Nothing is raised: the call returns normally,
  as it does with \<open>DONE\<close>. The AnnData object is left as it was, whatever the other arguments
  are, so no table is built, no score computed and no permutation drawn.
\<close>

theorem score_clusters_missing_prerequisite:
  assumes "(''louvain'' \<notin> fst ` set (obs anndata) \<and> ''leiden'' \<notin> fst ` set (obs anndata))
           \<or> uns_rank_genes_groups anndata = None"
  shows "score_clusters anndata ref_marker gene_list draws bin_size random_sampling
           = Inr (missing_prerequisite_message, anndata)"
  using assms by (auto simp: score_clusters_def)

theorem score_clusters_missing_prerequisite_witness:
  "score_clusters \<lparr>n_obs = 2, obs = [(''n_genes'', [''10'', ''12''])],
        uns_rank_genes_groups = (None :: unit rank_genes_groups option), uns_scoreCT = None\<rparr>
      [(''CT'', [''g0''])] [''x''] (\<lambda>i j. j) 0 0
   = Inr (missing_prerequisite_message,
        \<lparr>n_obs = 2, obs = [(''n_genes'', [''10'', ''12''])],
         uns_rank_genes_groups = None, uns_scoreCT = None\<rparr>)"
  by (rule score_clusters_missing_prerequisite) simp

text \<open>
  The claim as stated fails: on a dataset without clustering and without ranking the call
  does not fail, it returns, and what it returns is the message.
\<close>

theorem score_clusters_missing_prerequisite_counterexample:
  "\<not> isl (score_clusters \<lparr>n_obs = 2, obs = [(''n_genes'', [''10'', ''12''])],
        uns_rank_genes_groups = (None :: unit rank_genes_groups option), uns_scoreCT = None\<rparr>
      [(''CT'', [''g0''])] [''x''] example_draws 20 1000)
   \<and> fst (projr (score_clusters \<lparr>n_obs = 2, obs = [(''n_genes'', [''10'', ''12''])],
        uns_rank_genes_groups = (None :: unit rank_genes_groups option), uns_scoreCT = None\<rparr>
      [(''CT'', [''g0''])] [''x''] example_draws 20 1000)) = missing_prerequisite_message
   \<and> missing_prerequisite_message \<noteq> ''DONE''"
  by (simp add: score_clusters_def missing_prerequisite_message_def)

end
